theory Spec2Isabelle
  imports Complex_Main
begin

section \<open>The Numerov shooting solver of harmonic0.c and harmonic1.c\<close>

text \<open>
  The two programs solve the one-dimensional Schroedinger equation of the harmonic
  oscillator on a uniform grid.  Every \<^verbatim>\<open>double\<close> of the source is modelled by a
  \<^typ>\<open>real\<close>: additions, products and quotients are exact, so rounding, overflow,
  infinities and NaN are outside the model, and a quotient by zero has HOL's value
  \<open>0\<close> where C produces an infinity or a NaN.  Every \<^verbatim>\<open>int\<close> is an \<^typ>\<open>int\<close>.
  The C arrays \<^verbatim>\<open>x, y, p, f, vpot\<close> are lists of reals read and written by index.
  The lines printed on stdout and stderr in the course of a search are not modelled,
  apart from the diagnostic that goes with each call of \<^verbatim>\<open>exit\<close>.
\<close>

subsection \<open>Process exits\<close>

text \<open>
  \<^verbatim>\<open>quit()\<close> (a failed \<^verbatim>\<open>scanf\<close>) prints "Exiting" and calls \<^verbatim>\<open>exit(0)\<close>; a negative
  node count closes the output file and calls \<^verbatim>\<open>exit(0)\<close>; the two checks on the
  turning point print a message on stderr and call \<^verbatim>\<open>exit(1)\<close>.
\<close>

datatype exit = Quit | Finished | TooFar | NoTurningPoint

fun exit_status :: "exit \<Rightarrow> int" where
  "exit_status Quit = 0"
| "exit_status Finished = 0"
| "exit_status TooFar = 1"
| "exit_status NoTurningPoint = 1"

fun diagnostic :: "exit \<Rightarrow> string" where
  "diagnostic Quit = ''Exiting''"
| "diagnostic Finished = ''''"
| "diagnostic TooFar = ''last change of sign too far.''"
| "diagnostic NoTurningPoint = ''no classical turning point?''"

subsection \<open>Arrays and counted loops\<close>

text \<open>
  \<^verbatim>\<open>malloc((mesh+1) * sizeof(double))\<close>: an array of \<open>mesh + 1\<close> cells.  The source
  writes every cell of a fresh array before it reads it, so the model fills it with
  zeros.
\<close>

definition alloc :: "int \<Rightarrow> real list" where
  "alloc n = replicate (nat n) 0"

definition cell :: "real list \<Rightarrow> int \<Rightarrow> real" where
  "cell a i = a ! nat i"

definition upd :: "real list \<Rightarrow> int \<Rightarrow> real \<Rightarrow> real list" where
  "upd a i v = a[nat i := v]"

text \<open>
  \<^verbatim>\<open>for (i = lo; i <= hi; ++i) body\<close> and \<^verbatim>\<open>for (i = hi; i >= lo; --i) body\<close>, for a body
  that assigns neither \<open>i\<close> nor the bounds.
\<close>

definition for_up :: "int \<Rightarrow> int \<Rightarrow> (int \<Rightarrow> 's \<Rightarrow> 's) \<Rightarrow> 's \<Rightarrow> 's" where
  "for_up lo hi body s = fold body [lo..hi] s"

definition for_down :: "int \<Rightarrow> int \<Rightarrow> (int \<Rightarrow> 's \<Rightarrow> 's) \<Rightarrow> 's \<Rightarrow> 's" where
  "for_down hi lo body s = fold body (rev [lo..hi]) s"

text \<open>
  \<^verbatim>\<open>copysign(a, b)\<close> of math.h: the magnitude of \<open>a\<close> with the sign of \<open>b\<close>.  A real
  zero stands for the double \<open>+0.0\<close>, whose sign is positive.
\<close>

definition copysign :: "real \<Rightarrow> real \<Rightarrow> real" where
  "copysign a b = (if b < 0 then - \<bar>a\<bar> else \<bar>a\<bar>)"

subsection \<open>Grid and potential (harmonic1.c lines 36-57, harmonic0.c lines 32-52)\<close>

record grid =
  mesh :: int
  xmax :: real
  dx :: real
  ddx12 :: real
  x :: "real list"
  vpot :: "real list"

text \<open>The loop of lines 54-57: \<^verbatim>\<open>x[i] = (double) i * dx; vpot[i] = 0.5 * x[i] * x[i];\<close>\<close>

definition grid_body :: "real \<Rightarrow> int \<Rightarrow> real list \<times> real list \<Rightarrow> real list \<times> real list" where
  "grid_body h i xv =
     (let xs = upd (fst xv) i (real_of_int i * h);
          vs = upd (snd xv) i (0.5 * cell xs i * cell xs i)
      in (xs, vs))"

definition make_grid :: "real \<Rightarrow> int \<Rightarrow> grid" where
  "make_grid xm m =
     (let h = xm / real_of_int m;
          xv = for_up 0 m (grid_body h) (alloc (m + 1), alloc (m + 1))
      in \<lparr>mesh = m, xmax = xm, dx = h, ddx12 = h * h / 12, x = fst xv, vpot = snd xv\<rparr>)"

text \<open>
  harmonic1.c reads \<open>xmax\<close> and \<open>mesh\<close> with \<^verbatim>\<open>scanf\<close> and calls \<^verbatim>\<open>quit()\<close> when a
  value does not parse (\<open>None\<close>); harmonic0.c does not test the result of \<^verbatim>\<open>scanf\<close>.
  Neither program tests the values read.
\<close>

definition read_grid :: "real option \<Rightarrow> int option \<Rightarrow> exit + grid" where
  "read_grid xmax_in mesh_in =
     (case xmax_in of
        None \<Rightarrow> Inl Quit
      | Some xm \<Rightarrow>
          (case mesh_in of
             None \<Rightarrow> Inl Quit
           | Some m \<Rightarrow> Inr (make_grid xm m)))"

subsection \<open>The f-function and its last change of sign (harmonic1.c lines 105-136)\<close>

text \<open>
  The body of the loop of lines 107-121, on the pair of the array \<open>f\<close> and the index
  \<open>icl\<close>.
\<close>

definition f_body :: "grid \<Rightarrow> real \<Rightarrow> int \<Rightarrow> real list \<times> int \<Rightarrow> real list \<times> int" where
  "f_body g en i fi =
     (let f1 = upd (fst fi) i (ddx12 g * 2 * (cell (vpot g) i - en));
          f2 = (if cell f1 i = 0 then upd f1 i (1 / 10 ^ 20) else f1);
          icl' = (if cell f2 i \<noteq> copysign (cell f2 i) (cell f2 (i - 1)) then i else snd fi)
      in (f2, icl'))"

definition f_scan :: "grid \<Rightarrow> real \<Rightarrow> real list \<times> int" where
  "f_scan g en =
     for_up 1 (mesh g) (f_body g en)
       (upd (alloc (mesh g + 1)) 0 (ddx12 g * (2 * (cell (vpot g) 0 - en))), - 1)"

text \<open>Lines 123-130: the two fatal checks, in the order of the source.\<close>

definition check_icl :: "int \<Rightarrow> int \<Rightarrow> exit option" where
  "check_icl m icl =
     (if icl \<ge> m - 2 then Some TooFar
      else if icl < 1 then Some NoTurningPoint
      else None)"

text \<open>Lines 134-136: \<^verbatim>\<open>f[i] = 1. - f[i]\<close> for \<open>i = 0..mesh\<close>.\<close>

definition f_numerov :: "int \<Rightarrow> real list \<Rightarrow> real list" where
  "f_numerov m f = for_up 0 m (\<lambda>i a. upd a i (1 - cell a i)) f"

subsection \<open>The state of one eigenvalue search\<close>

text \<open>
  The variables of \<^verbatim>\<open>main\<close> that one pass of the shooting loop reads or writes and
  that the code after the loop reads.
\<close>

record search =
  elw :: real
  eup :: real
  e :: real
  kkk :: int
  icl :: int
  f :: "real list"
  y :: "real list"
  p :: "real list"
  djump :: real

subsection \<open>Outward integration (harmonic1.c lines 138-179)\<close>

text \<open>\<^verbatim>\<open>hnodes = nodes / 2\<close>: the quotient of C truncates towards zero.\<close>

definition hnodes :: "int \<Rightarrow> int" where
  "hnodes nodes = (if nodes < 0 then - ((- nodes) div 2) else nodes div 2)"

text \<open>Lines 138-160: \<open>y\<close> is set to zero, then its first two points by parity.\<close>

definition y_first :: "grid \<Rightarrow> int \<Rightarrow> real list \<Rightarrow> real list" where
  "y_first g nodes fn =
     (let y0 = for_up 0 (mesh g) (\<lambda>i a. upd a i 0) (alloc (mesh g + 1))
      in if 2 * hnodes nodes = nodes
         then (let y1 = upd y0 0 1
               in upd y1 1 (0.5 * (12 - cell fn 0 * 10) * cell y1 0 / cell fn 1))
         else upd (upd y0 0 0) 1 (dx g))"

text \<open>The body of the loop of lines 165-170, on the pair of \<open>y\<close> and \<open>ncross\<close>.\<close>

definition out_body :: "real list \<Rightarrow> int \<Rightarrow> real list \<times> int \<Rightarrow> real list \<times> int" where
  "out_body fn i yn =
     (let y1 = upd (fst yn) (i + 1)
                 (((12 - cell fn i * 10) * cell (fst yn) i
                    - cell fn (i - 1) * cell (fst yn) (i - 1)) / cell fn (i + 1))
      in (y1, if cell y1 i \<noteq> copysign (cell y1 i) (cell y1 (i + 1))
              then snd yn + 1 else snd yn))"

text \<open>Lines 138-179: the result is \<open>y\<close>, \<open>yicl\<close> and the node count \<open>ncross\<close>.\<close>

definition outward :: "grid \<Rightarrow> int \<Rightarrow> real list \<Rightarrow> int \<Rightarrow> real list \<times> real \<times> int" where
  "outward g nodes fn ic =
     (let yn = for_up 1 (ic - 1) (out_body fn) (y_first g nodes fn, 0)
      in (fst yn, cell (fst yn) ic,
          if 2 * hnodes nodes = nodes then 2 * snd yn else 2 * snd yn + 1))"

subsection \<open>Bisection on the node count (harmonic1.c lines 183-205)\<close>

definition bracket :: "int \<Rightarrow> int \<Rightarrow> int \<Rightarrow> search \<Rightarrow> search" where
  "bracket iterate nodes ncross s =
     (if iterate > 1 \<and> ncross \<noteq> nodes
      then (let s1 = (if ncross > nodes then s\<lparr>eup := e s\<rparr> else s\<lparr>elw := e s\<rparr>)
            in s1\<lparr>e := 0.5 * (eup s1 + elw s1)\<rparr>)
      else s)"

subsection \<open>Inward integration, matching and normalization (harmonic1.c lines 215-244)\<close>

text \<open>
  Lines 215-222.  The values are exact reals: where the doubles of the program
  overflow to an infinity (a wide grid, on which the inward solution grows beyond
  the largest double), the model stays finite.
\<close>

definition inward :: "grid \<Rightarrow> real list \<Rightarrow> int \<Rightarrow> real list \<Rightarrow> real list" where
  "inward g fn ic y0 =
     (let m = mesh g;
          y1 = upd y0 m (dx g);
          y2 = upd y1 (m - 1) ((12 - 10 * cell fn m) * cell y1 m / cell fn (m - 1))
      in for_down (m - 1) (ic + 1)
           (\<lambda>i a. upd a (i - 1)
              (((12 - 10 * cell fn i) * cell a i - cell fn (i + 1) * cell a (i + 1))
                 / cell fn (i - 1))) y2)"

text \<open>Lines 226-229: \<^verbatim>\<open>yicl /= y[icl]\<close>, then \<^verbatim>\<open>y[i] *= yicl\<close> for \<open>i = icl..mesh\<close>.\<close>

definition rescale :: "grid \<Rightarrow> int \<Rightarrow> real \<Rightarrow> real list \<Rightarrow> real list" where
  "rescale g ic yicl y0 =
     (let r = yicl / cell y0 ic
      in for_up ic (mesh g) (\<lambda>i a. upd a i (cell a i * r)) y0)"

text \<open>Lines 234-238: the trapezoid sum, before the square root is taken.\<close>

definition trapezoid :: "grid \<Rightarrow> real list \<Rightarrow> real" where
  "trapezoid g y0 =
     dx g * (2 * for_up 1 (mesh g) (\<lambda>i n. n + cell y0 i * cell y0 i) 0
               + cell y0 0 * cell y0 0)"

text \<open>
  Lines 239-242: \<^verbatim>\<open>norm = sqrt(norm)\<close>, then \<^verbatim>\<open>y[i] /= norm\<close> for \<open>i = 0..mesh\<close>.  The
  program does not test the sign of the sum: when it is negative (\<open>dx < 0\<close>) the
  \<^verbatim>\<open>sqrt\<close> of C is a NaN and so is every \<open>y[i]\<close>, whereas the square root of HOL is
  \<open>- sqrt (- norm)\<close> and the model keeps finite values; either way the result is not a
  normalized array.
\<close>

definition normalize_y :: "grid \<Rightarrow> real list \<Rightarrow> real list" where
  "normalize_y g y0 =
     (let nrm = sqrt (trapezoid g y0)
      in for_up 0 (mesh g) (\<lambda>i a. upd a i (cell a i / nrm)) y0)"

definition matching :: "grid \<Rightarrow> real list \<Rightarrow> int \<Rightarrow> real \<Rightarrow> real list \<Rightarrow> real list" where
  "matching g fn ic yicl y0 = normalize_y g (rescale g ic yicl (inward g fn ic y0))"

subsection \<open>Bisection on the derivative discontinuity (harmonic1.c lines 249-261)\<close>

definition refine :: "grid \<Rightarrow> search \<Rightarrow> search" where
  "refine g s =
     (let i = icl s;
          dj = (cell (y s) (i + 1) + cell (y s) (i - 1)
                  - (14 - 12 * cell (f s) i) * cell (y s) i) / dx g;
          s1 = s\<lparr>djump := dj\<rparr>;
          s2 = (if dj * cell (y s1) i > 0 then s1\<lparr>eup := e s1\<rparr> else s1\<lparr>elw := e s1\<rparr>)
      in s2\<lparr>e := 0.5 * (eup s2 + elw s2)\<rparr>)"

subsection \<open>One pass of the shooting loop (harmonic1.c lines 98-262)\<close>

text \<open>
  Lines 105-130: the f-function at the trial energy and its last change of sign, or
  the exit of the process.
\<close>

definition turning_point :: "grid \<Rightarrow> real \<Rightarrow> exit + real list \<times> int" where
  "turning_point g en =
     (let fi = f_scan g en
      in case check_icl (mesh g) (snd fi) of
           Some ex \<Rightarrow> Inl ex
         | None \<Rightarrow> Inr fi)"

text \<open>
  Lines 215-261, run when the node count is right or the energy is fixed: the
  matched and normalized \<open>y\<close>, then, in bisection mode, the bracket update.
\<close>

definition match_refine :: "grid \<Rightarrow> int \<Rightarrow> real \<Rightarrow> search \<Rightarrow> search" where
  "match_refine g iterate yicl s =
     (let s2 = s\<lparr>y := matching g (f s) (icl s) yicl (y s)\<rparr>
      in if iterate > 1 then refine g s2 else s2)"

text \<open>
  Lines 132-262.  The arrays \<open>f\<close> and \<open>y\<close> are rewritten in full at the start of a
  pass (lines 105-108 and 138-140), so the pass starts from fresh arrays of
  \<open>mesh + 1\<close> cells.
\<close>

definition integrate :: "grid \<Rightarrow> int \<Rightarrow> int \<Rightarrow> real list \<times> int \<Rightarrow> search \<Rightarrow> search" where
  "integrate g nodes iterate fi s =
     (let ic = snd fi;
          fn = f_numerov (mesh g) (fst fi);
          out = outward g nodes fn ic;
          yicl = fst (snd out);
          ncross = snd (snd out);
          s1 = bracket iterate nodes ncross (s\<lparr>icl := ic, f := fn, y := fst out\<rparr>)
      in if iterate = 1 \<or> ncross = nodes
         then match_refine g iterate yicl s1
         else s1)"

definition pass :: "grid \<Rightarrow> int \<Rightarrow> int \<Rightarrow> search \<Rightarrow> exit + search" where
  "pass g nodes iterate s =
     (case turning_point g (e s) of
        Inl ex \<Rightarrow> Inl ex
      | Inr fi \<Rightarrow> Inr (integrate g nodes iterate fi s))"

subsection \<open>The shooting loop (harmonic1.c line 97)\<close>

text \<open>
  \<^verbatim>\<open>for (kkk = 0; kkk <= iterate && eup-elw > 1.e-10; ++kkk)\<close>.  A fatal exit inside
  a pass ends the loop and the process.
\<close>

definition continue :: "int \<Rightarrow> search \<Rightarrow> bool" where
  "continue iterate s = (kkk s \<le> iterate \<and> eup s - elw s > 1 / 10 ^ 10)"

function shoot :: "grid \<Rightarrow> int \<Rightarrow> int \<Rightarrow> search \<Rightarrow> exit + search" where
  "shoot g nodes iterate s =
     (if continue iterate s
      then (case pass g nodes iterate s of
              Inl ex \<Rightarrow> Inl ex
            | Inr s1 \<Rightarrow> shoot g nodes iterate (s1\<lparr>kkk := kkk s + 1\<rparr>))
      else Inr s)"
  by pat_completeness auto
termination
  by (relation "measure (\<lambda>(g, nodes, iterate, s). nat (iterate + 1 - kkk s))")
     (auto simp: continue_def)

declare shoot.simps [simp del]

text \<open>
  The loop as a relation between the variables at two tests of the loop condition:
  \<open>reaches g nodes iterate s t\<close> when the loop started with the variables \<open>s\<close> tests
  its condition, some passes later, with the variables \<open>t\<close>.
\<close>

inductive reaches :: "grid \<Rightarrow> int \<Rightarrow> int \<Rightarrow> search \<Rightarrow> search \<Rightarrow> bool"
  for g :: grid and nodes :: int and iterate :: int where
  reaches_here: "reaches g nodes iterate s s"
| reaches_pass: "continue iterate s \<Longrightarrow> pass g nodes iterate s = Inr s1 \<Longrightarrow>
     reaches g nodes iterate (s1\<lparr>kkk := kkk s + 1\<rparr>) t \<Longrightarrow> reaches g nodes iterate s t"

subsection \<open>Starting a search (harmonic1.c lines 62-95)\<close>

text \<open>
  The variables of \<^verbatim>\<open>main\<close> after the allocation of lines 43-47, before the first
  search.  C leaves them uninitialized; the model sets them to zero.
\<close>

definition fresh :: "grid \<Rightarrow> search" where
  "fresh g = \<lparr>elw = 0, eup = 0, e = 0, kkk = 0, icl = 0,
              f = alloc (mesh g + 1), y = alloc (mesh g + 1), p = alloc (mesh g + 1),
              djump = 0\<rparr>"

text \<open>Lines 77-84: the lowest and the highest value of the potential, as \<open>(elw, eup)\<close>.\<close>

definition bounds :: "grid \<Rightarrow> real \<times> real" where
  "bounds g =
     for_up 0 (mesh g)
       (\<lambda>i lu. (if cell (vpot g) i < fst lu then cell (vpot g) i else fst lu,
                 if cell (vpot g) i > snd lu then cell (vpot g) i else snd lu))
       (cell (vpot g) (mesh g), cell (vpot g) (mesh g))"

text \<open>
  Lines 88-97: the trial energy typed by the user selects the mode and the iteration
  count \<open>iterate\<close>; the loop counter starts at zero.  The first component is
  \<open>iterate\<close>.
\<close>

definition trial :: "grid \<Rightarrow> real \<Rightarrow> search \<Rightarrow> int \<times> search" where
  "trial g e_in w =
     (let s = w\<lparr>elw := fst (bounds g), eup := snd (bounds g), kkk := 0\<rparr>
      in if e_in = 0
         then (1000, s\<lparr>e := 0.5 * (elw s + eup s)\<rparr>)
         else (1, s\<lparr>e := e_in\<rparr>))"

subsection \<open>Classical density and output table (harmonic1.c lines 266-306)\<close>

definition pi_c :: real where
  "pi_c = 3.14159265358979323846"

text \<open>The body of the loop of lines 275-282, on the pair of \<open>p\<close> and \<open>norm\<close>.\<close>

definition p_body :: "grid \<Rightarrow> real \<Rightarrow> int \<Rightarrow> real list \<times> real \<Rightarrow> real list \<times> real" where
  "p_body g xmcl i pn =
     (let arg = xmcl * xmcl - cell (x g) i * cell (x g) i;
          p1 = upd (fst pn) i (if arg > 0 then 1 / sqrt arg / pi_c else 0)
      in (p1, snd pn + dx g * 2 * cell p1 i))"

definition density :: "grid \<Rightarrow> search \<Rightarrow> real list" where
  "density g s =
     (let xmcl = sqrt (2 * e s);
          p0 = for_up (icl s) (mesh g) (\<lambda>i a. upd a i 0) (p s);
          pn = for_up 0 (icl s - 1) (p_body g xmcl) (p0, 0);
          nrm = snd pn - dx g * cell (fst pn) 0
      in for_up 0 (icl s - 1) (\<lambda>i a. upd a i (cell a i / nrm)) (fst pn))"

text \<open>
  A row of the table: \<open>x\<close>, \<open>y(x)\<close>, \<open>y(x)\<^sup>2\<close>, the classical \<open>p(x)\<close> and \<open>V(x)\<close>.  The
  rows for \<open>x < 0\<close> come first, from \<open>i = mesh\<close> down to \<open>1\<close>, then those for
  \<open>x \<ge> 0\<close>; the model keeps the values, not their decimal notation.
\<close>

type_synonym row = "real \<times> real \<times> real \<times> real \<times> real"

definition table :: "grid \<Rightarrow> int \<Rightarrow> search \<Rightarrow> row list" where
  "table g nodes s =
     (let parity = (if 2 * hnodes nodes = nodes then 1 else - 1)
      in for_down (mesh g) 1
           (\<lambda>i rows. rows @ [(- cell (x g) i, parity * cell (y s) i,
                               cell (y s) i * cell (y s) i, cell (p s) i, cell (vpot g) i)])
           []
         @ for_up 0 (mesh g)
             (\<lambda>i rows. rows @ [(cell (x g) i, cell (y s) i,
                                 cell (y s) i * cell (y s) i, cell (p s) i, cell (vpot g) i)])
             [])"

text \<open>
  One turn of the loop at label \<open>L999\<close>: the node count is read (\<open>None\<close> when it does
  not parse), a negative count ends the session, otherwise the search runs from the
  variables \<open>w\<close> left by the allocation or by the previous search and, unless a pass
  exits, yields the final variables and the table written to the output file.
\<close>

definition search_once :: "grid \<Rightarrow> search \<Rightarrow> int option \<Rightarrow> real \<Rightarrow> exit + search \<times> row list" where
  "search_once g w nodes_in e_in =
     (case nodes_in of
        None \<Rightarrow> Inl Quit
      | Some nodes \<Rightarrow>
          if nodes < 0 then Inl Finished
          else (let it = trial g e_in w
                in case shoot g nodes (fst it) (snd it) of
                     Inl ex \<Rightarrow> Inl ex
                   | Inr s1 \<Rightarrow>
                       (let s2 = s1\<lparr>p := density g s1\<rparr>
                        in Inr (s2, table g nodes s2))))"

subsection \<open>Notions used to state the properties of the f-function\<close>

text \<open>
  The value computed at line 108 for the index \<open>i\<close>, the value that lines 105-116
  leave in \<open>f[i]\<close> (the first cell is not tested against zero), and the test of
  line 118 on these values.
\<close>

definition raw_f :: "grid \<Rightarrow> real \<Rightarrow> int \<Rightarrow> real" where
  "raw_f g en i = ddx12 g * 2 * (cell (vpot g) i - en)"

definition stored_f :: "grid \<Rightarrow> real \<Rightarrow> int \<Rightarrow> real" where
  "stored_f g en i = (if i \<ge> 1 \<and> raw_f g en i = 0 then 1 / 10 ^ 20 else raw_f g en i)"

definition sign_change :: "grid \<Rightarrow> real \<Rightarrow> int \<Rightarrow> bool" where
  "sign_change g en i =
     (stored_f g en i \<noteq> copysign (stored_f g en i) (stored_f g en (i - 1)))"


subsection \<open>The quantities of one pass as functions of the trial energy\<close>

text \<open>
  Names for what a pass computes from the grid, the requested node count and the
  trial energy \<open>en\<close>: the coefficient array of the Numerov recursion, the index
  \<open>icl\<close>, the array \<open>y\<close> after the outward integration, the node count \<open>ncross\<close>, the
  array after the inward integration, after the rescaling, and after the
  normalization.
\<close>

definition coeffs :: "grid \<Rightarrow> real \<Rightarrow> real list" where
  "coeffs g en = f_numerov (mesh g) (fst (f_scan g en))"

definition icl_at :: "grid \<Rightarrow> real \<Rightarrow> int" where
  "icl_at g en = snd (f_scan g en)"

definition y_out :: "grid \<Rightarrow> int \<Rightarrow> real \<Rightarrow> real list" where
  "y_out g nodes en = fst (outward g nodes (coeffs g en) (icl_at g en))"

definition ncross_at :: "grid \<Rightarrow> int \<Rightarrow> real \<Rightarrow> int" where
  "ncross_at g nodes en = snd (snd (outward g nodes (coeffs g en) (icl_at g en)))"

definition y_in :: "grid \<Rightarrow> int \<Rightarrow> real \<Rightarrow> real list" where
  "y_in g nodes en = inward g (coeffs g en) (icl_at g en) (y_out g nodes en)"

definition y_matched :: "grid \<Rightarrow> int \<Rightarrow> real \<Rightarrow> real list" where
  "y_matched g nodes en =
     rescale g (icl_at g en) (cell (y_out g nodes en) (icl_at g en)) (y_in g nodes en)"

definition wavefunction :: "grid \<Rightarrow> int \<Rightarrow> real \<Rightarrow> real list" where
  "wavefunction g nodes en = normalize_y g (y_matched g nodes en)"

subsection \<open>A very wide grid\<close>

text \<open>
  The session \<open>xmax = 11 * 2\<^sup>5\<^sup>0\<^sup>0\<close> (about \<open>3.6e151\<close>), \<open>mesh = 11\<close>, so that \<open>dx = 2\<^sup>5\<^sup>0\<^sup>0\<close>: its
  bracket \<open>[0, 121 * 2\<^sup>9\<^sup>9\<^sup>9]\<close> is still wider than the tolerance after a thousand
  halvings.
\<close>

definition wide_grid :: grid where
  "wide_grid = make_grid (11 * 2 ^ 500) 11"

subsection \<open>A very narrow grid\<close>


section \<open>Loops and arrays\<close>

lemma for_up_empty: "hi < lo \<Longrightarrow> for_up lo hi body s = s"
  by (simp add: for_up_def)

lemma for_up_last: "lo \<le> hi \<Longrightarrow> for_up lo hi body s = body hi (for_up lo (hi - 1) body s)"
  by (simp add: for_up_def upto_rec2)

lemma for_up_first: "lo \<le> hi \<Longrightarrow> for_up lo hi body s = for_up (lo + 1) hi body (body lo s)"
  by (simp add: for_up_def upto_rec1)


lemma for_down_first: "lo \<le> hi \<Longrightarrow> for_down hi lo body s = for_down (hi - 1) lo body (body hi s)"
  by (simp add: for_down_def upto_rec2)


lemma for_up_induct:
  assumes "P (lo - 1) s"
    and "\<And>i t. lo \<le> i \<Longrightarrow> i \<le> hi \<Longrightarrow> P (i - 1) t \<Longrightarrow> P i (body i t)"
    and "lo - 1 \<le> hi"
  shows "P hi (for_up lo hi body s)"
  using assms(3,2)
proof (induction hi rule: int_ge_induct)
  case base
  then show ?case using assms(1) by (simp add: for_up_empty)
next
  case (step k)
  have "P k (for_up lo k body s)" using step by simp
  then have "P (k + 1) (body (k + 1) (for_up lo k body s))"
    using step.prems [of "k + 1" "for_up lo k body s"] step.hyps by simp
  then show ?case using step.hyps by (simp add: for_up_last)
qed

lemma length_upd: "length (upd a i v) = length a"
  by (simp add: upd_def)

lemma cell_upd: "0 \<le> i \<Longrightarrow> 0 \<le> j \<Longrightarrow> nat i < length a \<Longrightarrow>
    cell (upd a i v) j = (if j = i then v else cell a j)"
  by (auto simp: cell_def upd_def nth_list_update)

lemma cell_upd_same: "0 \<le> i \<Longrightarrow> nat i < length a \<Longrightarrow> cell (upd a i v) i = v"
  by (simp add: cell_def upd_def)

lemma cell_upd_other: "0 \<le> i \<Longrightarrow> 0 \<le> j \<Longrightarrow> j \<noteq> i \<Longrightarrow> cell (upd a i v) j = cell a j"
  by (auto simp: cell_def upd_def nth_list_update)

lemma for_up_map_length:
  "length (for_up lo hi (\<lambda>i a. upd a i (h i a)) a0) = length a0"
proof (cases "lo - 1 \<le> hi")
  case True
  show ?thesis
    by (rule for_up_induct [where P = "\<lambda>i a. length a = length a0", OF _ _ True])
       (simp_all add: length_upd)
next
  case False
  then show ?thesis by (simp add: for_up_empty)
qed

lemma for_up_map_cell:
  assumes "0 \<le> lo" "int (length a0) > hi" "0 \<le> j"
  shows "cell (for_up lo hi (\<lambda>i a. upd a i (h i (cell a i))) a0) j =
           (if lo \<le> j \<and> j \<le> hi then h j (cell a0 j) else cell a0 j)"
proof (cases "lo - 1 \<le> hi")
  case True
  have "length (for_up lo hi (\<lambda>i a. upd a i (h i (cell a i))) a0) = length a0 \<and>
     (\<forall>j\<ge>0. cell (for_up lo hi (\<lambda>i a. upd a i (h i (cell a i))) a0) j =
           (if lo \<le> j \<and> j \<le> hi then h j (cell a0 j) else cell a0 j))"
    by (rule for_up_induct [where P = "\<lambda>k a. length a = length a0 \<and> (\<forall>j\<ge>0. cell a j =
           (if lo \<le> j \<and> j \<le> k then h j (cell a0 j) else cell a0 j))", OF _ _ True])
       (use assms in \<open>auto simp: length_upd cell_upd\<close>)
  then show ?thesis using assms by simp
next
  case False
  then show ?thesis by (simp add: for_up_empty)
qed


lemma grid_loop:
  assumes "hi < int (length a)" "length b = length a" "- 1 \<le> hi"
  shows "length (fst (for_up 0 hi (grid_body h) (a, b))) = length a \<and>
         length (snd (for_up 0 hi (grid_body h) (a, b))) = length a \<and>
         (\<forall>j\<ge>0. cell (fst (for_up 0 hi (grid_body h) (a, b))) j =
                   (if j \<le> hi then real_of_int j * h else cell a j) \<and>
                cell (snd (for_up 0 hi (grid_body h) (a, b))) j =
                   (if j \<le> hi then 0.5 * (real_of_int j * h) * (real_of_int j * h) else cell b j))"
proof -
  have le: "0 - 1 \<le> hi" using assms(3) by simp
  show ?thesis
    by (rule for_up_induct [where P = "\<lambda>k r. length (fst r) = length a \<and>
         length (snd r) = length a \<and>
         (\<forall>j\<ge>0. cell (fst r) j = (if j \<le> k then real_of_int j * h else cell a j) \<and>
                cell (snd r) j =
                   (if j \<le> k then 0.5 * (real_of_int j * h) * (real_of_int j * h) else cell b j))",
         OF _ _ le])
       (use assms in \<open>auto simp: grid_body_def Let_def length_upd cell_upd\<close>)
qed

lemma length_alloc: "length (alloc n) = nat n"
  by (simp add: alloc_def)

lemma make_grid_arrays:
  assumes "0 \<le> m"
  shows "length (x (make_grid xm m)) = nat (m + 1)"
    and "length (vpot (make_grid xm m)) = nat (m + 1)"
    and "0 \<le> j \<Longrightarrow> j \<le> m \<Longrightarrow> cell (x (make_grid xm m)) j = real_of_int j * (xm / real_of_int m)"
    and "0 \<le> j \<Longrightarrow> j \<le> m \<Longrightarrow> cell (vpot (make_grid xm m)) j =
           0.5 * (real_of_int j * (xm / real_of_int m)) * (real_of_int j * (xm / real_of_int m))"
  using grid_loop [of m "alloc (m + 1)" "alloc (m + 1)" "xm / real_of_int m"] assms
  by (simp_all add: make_grid_def Let_def length_alloc)



section \<open>GridBuilder\<close>

text \<open>
  C9, as amended.  Neither program validates \<open>xmax\<close> or \<open>mesh\<close>: whenever the two
  values parse and \<open>mesh \<ge> 1\<close>, whatever the sign of \<open>xmax\<close>, the grid is built, with
  arrays of \<open>mesh + 1\<close> cells, \<open>dx = xmax / mesh\<close>, \<open>x[i] = i * dx\<close> and
  \<open>vpot[i] = 0.5 * x[i]\<^sup>2\<close> for \<open>i = 0..mesh\<close>.
\<close>

theorem grid_built_without_validation:
  assumes "1 \<le> m"
  shows "read_grid (Some xm) (Some m) = Inr (make_grid xm m) \<and>
         mesh (make_grid xm m) = m \<and>
         dx (make_grid xm m) = xm / real_of_int m \<and>
         length (x (make_grid xm m)) = nat (m + 1) \<and>
         length (vpot (make_grid xm m)) = nat (m + 1) \<and>
         (\<forall>i\<in>{0..m}. cell (x (make_grid xm m)) i = real_of_int i * dx (make_grid xm m) \<and>
                      cell (vpot (make_grid xm m)) i
                        = 0.5 * cell (x (make_grid xm m)) i * cell (x (make_grid xm m)) i)"
proof -
  have m0: "0 \<le> m" using assms by simp
  have d: "dx (make_grid xm m) = xm / real_of_int m" by (simp add: make_grid_def Let_def)
  show ?thesis
    using make_grid_arrays [OF m0, where xm = xm] d
    by (simp add: read_grid_def make_grid_def Let_def)
qed

theorem grid_built_without_validation_witness:
  "(1::int) \<le> 4 \<and> read_grid (Some (- 2)) (Some 4) = Inr (make_grid (- 2) 4) \<and>
   length (vpot (make_grid (- 2) 4)) = 5 \<and> cell (vpot (make_grid (- 2) 4)) 3 = 9 / 8"
proof -
  have h: "(1::int) \<le> 4" by simp
  note t = grid_built_without_validation [OF h, of "- 2"]
  have "(3::int) \<in> {0..4}" by simp
  with t have "cell (x (make_grid (- 2) 4)) 3 = real_of_int 3 * dx (make_grid (- 2) 4) \<and>
      cell (vpot (make_grid (- 2) 4)) 3
        = 0.5 * cell (x (make_grid (- 2) 4)) 3 * cell (x (make_grid (- 2) 4)) 3"
    by blast
  with t show ?thesis by simp
qed

text \<open>
  C9 as stated fails: the input \<open>xmax = -2\<close>, \<open>mesh = 4\<close> is not rejected, and both
  arrays are built.
\<close>

theorem invalid_parameters_accepted:
  "read_grid (Some (- 2)) (Some 4) =
     Inr \<lparr>mesh = 4, xmax = - 2, dx = - (1 / 2), ddx12 = 1 / 48,
          x = [0, - (1 / 2), - 1, - (3 / 2), - 2],
          vpot = [0, 1 / 8, 1 / 2, 9 / 8, 2]\<rparr>"
  by code_simp

lemma make_grid_fields:
  "mesh (make_grid xm m) = m" "dx (make_grid xm m) = xm / real_of_int m"
  "ddx12 (make_grid xm m) = dx (make_grid xm m) * dx (make_grid xm m) / 12"
  by (simp_all add: make_grid_def Let_def)

section \<open>The f-function\<close>

lemma f_scan_inv:
  assumes "0 \<le> k" "k < int (length a)"
  shows "(\<lambda>r. length (fst r) = length a \<and>
           (\<forall>j. 0 \<le> j \<and> j \<le> k \<longrightarrow> cell (fst r) j = stored_f g en j) \<and>
           (snd r = - 1 \<or> 1 \<le> snd r \<and> snd r \<le> k \<and> sign_change g en (snd r)) \<and>
           (\<forall>j. 1 \<le> j \<and> snd r < j \<and> j \<le> k \<longrightarrow> \<not> sign_change g en j))
         (for_up 1 k (f_body g en) (upd a 0 (ddx12 g * (2 * (cell (vpot g) 0 - en))), - 1))"
proof -
  have le: "1 - 1 \<le> k" using assms by simp
  show ?thesis
  proof (rule for_up_induct [where P = "\<lambda>k r. length (fst r) = length a \<and>
           (\<forall>j. 0 \<le> j \<and> j \<le> k \<longrightarrow> cell (fst r) j = stored_f g en j) \<and>
           (snd r = - 1 \<or> 1 \<le> snd r \<and> snd r \<le> k \<and> sign_change g en (snd r)) \<and>
           (\<forall>j. 1 \<le> j \<and> snd r < j \<and> j \<le> k \<longrightarrow> \<not> sign_change g en j)", OF _ _ le], goal_cases)
    case 1
    have "0 < length a" using assms by auto
    then show ?case
      by (auto simp: length_upd cell_upd stored_f_def raw_f_def)
  next
    case (2 i t)
    have i: "0 \<le> i" "nat i < length (fst t)" "0 \<le> i - 1" using 2 assms by auto
    have c: "cell (fst (f_body g en i t)) i = stored_f g en i"
      using i 2(1) by (simp add: f_body_def Let_def cell_upd length_upd stored_f_def raw_f_def)
    have o: "j \<ge> 0 \<Longrightarrow> j \<noteq> i \<Longrightarrow> cell (fst (f_body g en i t)) j = cell (fst t) j" for j
      using i by (simp add: f_body_def Let_def cell_upd length_upd)
    have l: "length (fst (f_body g en i t)) = length a"
      using 2 by (simp add: f_body_def Let_def length_upd)
    have p: "cell (fst t) (i - 1) = stored_f g en (i - 1)" using 2 i by simp
    have s: "snd (f_body g en i t) = (if sign_change g en i then i else snd t)"
      using c o [of "i - 1"] i p
      by (simp add: f_body_def Let_def sign_change_def cell_upd length_upd)
    show ?case
    proof (intro conjI allI impI)
      show "length (fst (f_body g en i t)) = length a" by (rule l)
    next
      fix j assume "0 \<le> j \<and> j \<le> i"
      then show "cell (fst (f_body g en i t)) j = stored_f g en j"
        using c o [of j] 2 by (cases "j = i") auto
    next
      show "snd (f_body g en i t) = - 1 \<or>
        1 \<le> snd (f_body g en i t) \<and> snd (f_body g en i t) \<le> i \<and>
        sign_change g en (snd (f_body g en i t))"
        using s 2 by auto
    next
      fix j assume "1 \<le> j \<and> snd (f_body g en i t) < j \<and> j \<le> i"
      then show "\<not> sign_change g en j"
        using s 2 by (cases "j = i") (auto split: if_splits)
    qed
  qed
qed

lemma f_scan_length: "0 \<le> mesh g \<Longrightarrow> length (fst (f_scan g en)) = nat (mesh g + 1)"
  using f_scan_inv [of "mesh g" "alloc (mesh g + 1)" g en]
  by (simp add: f_scan_def length_alloc)

lemma f_scan_cell:
  "0 \<le> j \<Longrightarrow> j \<le> mesh g \<Longrightarrow> cell (fst (f_scan g en)) j = stored_f g en j"
  using f_scan_inv [of "mesh g" "alloc (mesh g + 1)" g en]
  by (simp add: f_scan_def length_alloc)

lemma f_scan_icl:
  assumes "0 \<le> mesh g"
  shows "snd (f_scan g en) = - 1 \<or>
         1 \<le> snd (f_scan g en) \<and> snd (f_scan g en) \<le> mesh g \<and>
         sign_change g en (snd (f_scan g en))"
    and "1 \<le> j \<Longrightarrow> snd (f_scan g en) < j \<Longrightarrow> j \<le> mesh g \<Longrightarrow> \<not> sign_change g en j"
  using f_scan_inv [of "mesh g" "alloc (mesh g + 1)" g en] assms
  by (simp_all add: f_scan_def length_alloc)

lemma f_numerov_length: "length (f_numerov m a) = length a"
  unfolding f_numerov_def by (rule for_up_map_length)

lemma f_numerov_cell:
  "0 \<le> j \<Longrightarrow> j \<le> m \<Longrightarrow> m < int (length a) \<Longrightarrow> cell (f_numerov m a) j = 1 - cell a j"
  unfolding f_numerov_def
  using for_up_map_cell [of 0 m a j "\<lambda>i v. 1 - v"] by simp

lemma coefficient_cell:
  "0 \<le> j \<Longrightarrow> j \<le> mesh g \<Longrightarrow>
     cell (f_numerov (mesh g) (fst (f_scan g en))) j = 1 - stored_f g en j"
  by (simp add: f_numerov_cell f_scan_length f_scan_cell)

section \<open>One pass\<close>

lemma bracket_frame [simp]:
  "icl (bracket it nodes nc s) = icl s" "f (bracket it nodes nc s) = f s"
  "kkk (bracket it nodes nc s) = kkk s" "y (bracket it nodes nc s) = y s"
  "p (bracket it nodes nc s) = p s"
  by (simp_all add: bracket_def Let_def)

lemma refine_frame [simp]:
  "icl (refine g s) = icl s" "f (refine g s) = f s"
  "kkk (refine g s) = kkk s" "y (refine g s) = y s" "p (refine g s) = p s"
  by (simp_all add: refine_def Let_def)

lemma match_refine_frame [simp]:
  "icl (match_refine g it v s) = icl s" "f (match_refine g it v s) = f s"
  "kkk (match_refine g it v s) = kkk s" "p (match_refine g it v s) = p s"
  by (simp_all add: match_refine_def Let_def)

lemma integrate_frame [simp]:
  "icl (integrate g nodes it fi s) = snd fi"
  "f (integrate g nodes it fi s) = f_numerov (mesh g) (fst fi)"
  "kkk (integrate g nodes it fi s) = kkk s"
  "p (integrate g nodes it fi s) = p s"
  by (simp_all add: integrate_def Let_def)

lemma turning_point_Inl:
  "turning_point g en = Inl ex \<longleftrightarrow> check_icl (mesh g) (snd (f_scan g en)) = Some ex"
  by (simp add: turning_point_def Let_def split: option.splits)

lemma turning_point_Inr:
  "turning_point g en = Inr fi \<longleftrightarrow>
     check_icl (mesh g) (snd (f_scan g en)) = None \<and> fi = f_scan g en"
  by (auto simp: turning_point_def Let_def split: option.splits)

lemma pass_Inl:
  "pass g nodes it s = Inl ex \<longleftrightarrow> check_icl (mesh g) (snd (f_scan g (e s))) = Some ex"
  unfolding pass_def turning_point_def Let_def
  by (cases "check_icl (mesh g) (snd (f_scan g (e s)))") simp_all

lemma pass_Inr:
  "pass g nodes it s = Inr s1 \<longleftrightarrow>
     check_icl (mesh g) (snd (f_scan g (e s))) = None \<and>
     s1 = integrate g nodes it (f_scan g (e s)) s"
  unfolding pass_def turning_point_def Let_def
  by (cases "check_icl (mesh g) (snd (f_scan g (e s)))") auto


lemma pass_isl:
  "isl (pass g nodes it s) = (check_icl (mesh g) (snd (f_scan g (e s))) \<noteq> None)"
  unfolding pass_def turning_point_def Let_def
  by (cases "check_icl (mesh g) (snd (f_scan g (e s)))") simp_all

lemma outward_yicl:
  "fst (snd (outward g nodes fn ic)) = cell (fst (outward g nodes fn ic)) ic"
  by (simp add: outward_def Let_def)

lemma integrate_bracketing:
  assumes "1 < it" and "ncross_at g nodes en \<noteq> nodes"
  shows "integrate g nodes it (f_scan g en) s =
           (let s0 = s\<lparr>icl := icl_at g en, f := coeffs g en, y := y_out g nodes en\<rparr>;
                s1 = (if ncross_at g nodes en > nodes then s0\<lparr>eup := e s\<rparr>
                      else s0\<lparr>elw := e s\<rparr>)
            in s1\<lparr>e := 0.5 * (eup s1 + elw s1)\<rparr>)"
  using assms
  by (simp add: integrate_def Let_def bracket_def ncross_at_def coeffs_def icl_at_def y_out_def)

lemma integrate_matching:
  assumes "1 < it" and "ncross_at g nodes en = nodes"
  shows "integrate g nodes it (f_scan g en) s =
           refine g (s\<lparr>icl := icl_at g en, f := coeffs g en, y := wavefunction g nodes en\<rparr>)"
  using assms
  by (simp add: integrate_def Let_def bracket_def match_refine_def ncross_at_def coeffs_def
        icl_at_def y_out_def wavefunction_def y_matched_def y_in_def matching_def outward_yicl)

lemma integrate_fixed:
  "integrate g nodes 1 (f_scan g en) s =
     s\<lparr>icl := icl_at g en, f := coeffs g en, y := wavefunction g nodes en\<rparr>"
  by (simp add: integrate_def Let_def bracket_def match_refine_def ncross_at_def coeffs_def
        icl_at_def y_out_def wavefunction_def y_matched_def y_in_def matching_def outward_yicl)

section \<open>Integration, matching and normalization\<close>


lemma normalize_length: "length (normalize_y g a) = length a"
  unfolding normalize_y_def Let_def by (rule for_up_map_length)



lemma y_first_length: "length (y_first g nodes fn) = nat (mesh g + 1)"
  by (simp add: y_first_def Let_def length_upd for_up_map_length length_alloc)
















section \<open>The shooting loop\<close>

lemma reaches_shoot:
  "reaches g nodes it s t \<Longrightarrow> shoot g nodes it s = shoot g nodes it t"
proof (induction rule: reaches.induct)
  case (reaches_here s)
  show ?case by simp
next
  case (reaches_pass s s1 t)
  have "shoot g nodes it s = shoot g nodes it (s1\<lparr>kkk := kkk s + 1\<rparr>)"
    using reaches_pass.hyps(1,2) by (subst shoot.simps) simp
  then show ?case using reaches_pass.IH by simp
qed

lemma reaches_trans:
  "reaches g nodes it s t \<Longrightarrow> reaches g nodes it t u \<Longrightarrow> reaches g nodes it s u"
  by (induction rule: reaches.induct) (auto intro: reaches.intros)

lemma reaches_snoc:
  "reaches g nodes it s t \<Longrightarrow> continue it t \<Longrightarrow> pass g nodes it t = Inr t1 \<Longrightarrow>
     reaches g nodes it s (t1\<lparr>kkk := kkk t + 1\<rparr>)"
  by (rule reaches_trans) (auto intro: reaches.intros)

lemma shoot_stop: "\<not> continue it s \<Longrightarrow> shoot g nodes it s = Inr s"
  by (subst shoot.simps) simp

lemma shoot_exit:
  "continue it s \<Longrightarrow> pass g nodes it s = Inl ex \<Longrightarrow> shoot g nodes it s = Inl ex"
  by (subst shoot.simps) simp

lemma pass_bisect:
  assumes "pass g nodes it s = Inr s1" and "1 < it"
  shows "(eup s1 = e s \<and> elw s1 = elw s \<or> elw s1 = e s \<and> eup s1 = eup s) \<and>
         e s1 = (eup s1 + elw s1) / 2"
proof (cases "ncross_at g nodes (e s) = nodes")
  case True
  then have "s1 = refine g (s\<lparr>icl := icl_at g (e s), f := coeffs g (e s),
                          y := wavefunction g nodes (e s)\<rparr>)"
    using assms by (simp add: pass_Inr integrate_matching)
  then show ?thesis by (simp add: refine_def Let_def)
next
  case False
  then show ?thesis
    using assms by (simp add: pass_Inr integrate_bracketing Let_def)
qed

lemma pass_fixed:
  assumes "pass g nodes 1 s = Inr s1"
  shows "s1 = s\<lparr>icl := icl_at g (e s), f := coeffs g (e s), y := wavefunction g nodes (e s)\<rparr>"
  using assms by (simp add: pass_Inr integrate_fixed)

lemma bisect_step:
  fixes lo hi mid lo1 hi1 :: real
  assumes "mid = (hi + lo) / 2" and "lo < hi"
    and "hi1 = mid \<and> lo1 = lo \<or> lo1 = mid \<and> hi1 = hi"
  shows "lo1 < hi1 \<and> hi1 - lo1 = (hi - lo) / 2 \<and> lo \<le> lo1 \<and> hi1 \<le> hi"
  using assms by (auto simp: field_simps)

lemma continue_bracket: "continue it s \<Longrightarrow> elw s < eup s"
  by (simp add: continue_def)

lemma pass_halves:
  assumes "pass g nodes it s = Inr s1" and "1 < it" and "continue it s"
    and "e s = (eup s + elw s) / 2"
  shows "elw s1 < eup s1 \<and> eup s1 - elw s1 = (eup s - elw s) / 2 \<and>
         elw s \<le> elw s1 \<and> eup s1 \<le> eup s \<and> e s1 = (eup s1 + elw s1) / 2"
  using bisect_step [OF assms(4) continue_bracket [OF assms(3)]]
    pass_bisect [OF assms(1,2)] by blast

lemma reaches_midpoint:
  "reaches g nodes it s t \<Longrightarrow> 1 < it \<Longrightarrow> e s = (eup s + elw s) / 2 \<Longrightarrow>
     e t = (eup t + elw t) / 2"
proof (induction rule: reaches.induct)
  case (reaches_here s)
  then show ?case by simp
next
  case (reaches_pass s s1 t)
  have "e s1 = (eup s1 + elw s1) / 2"
    using pass_halves [OF reaches_pass.hyps(2) reaches_pass.prems(1) reaches_pass.hyps(1)
        reaches_pass.prems(2)] by simp
  then show ?case using reaches_pass.IH reaches_pass.prems by simp
qed

lemma trial_bisection:
  "fst (trial g 0 w) = 1000"
  "e (snd (trial g 0 w)) = (eup (snd (trial g 0 w)) + elw (snd (trial g 0 w))) / 2"
  "kkk (snd (trial g 0 w)) = 0"
  by (simp_all add: trial_def Let_def)

lemma shoot_fixed_twice:
  assumes "kkk s = 0" and "eup s - elw s > 1 / 10 ^ 10"
    and "check_icl (mesh g) (snd (f_scan g (e s))) = None"
  shows "shoot g nodes 1 s =
           Inr (s\<lparr>icl := icl_at g (e s), f := coeffs g (e s),
                  y := wavefunction g nodes (e s), kkk := 2\<rparr>)"
proof -
  let ?t = "s\<lparr>icl := icl_at g (e s), f := coeffs g (e s), y := wavefunction g nodes (e s)\<rparr>"
  have p0: "pass g nodes 1 s = Inr ?t"
    using assms(3) by (simp add: pass_Inr integrate_fixed)
  have c0: "continue 1 s" using assms by (simp add: continue_def)
  have s0: "shoot g nodes 1 s = shoot g nodes 1 (?t\<lparr>kkk := 1\<rparr>)"
    using p0 c0 assms(1) by (subst shoot.simps) simp
  have p1: "pass g nodes 1 (?t\<lparr>kkk := 1\<rparr>) = Inr (?t\<lparr>kkk := 1\<rparr>)"
    using assms(3) by (simp add: pass_Inr integrate_fixed)
  have c1: "continue 1 (?t\<lparr>kkk := 1\<rparr>)" using assms by (simp add: continue_def)
  have s1: "shoot g nodes 1 (?t\<lparr>kkk := 1\<rparr>) = shoot g nodes 1 (?t\<lparr>kkk := 2\<rparr>)"
    using p1 c1 by (subst shoot.simps) simp
  have "\<not> continue 1 (?t\<lparr>kkk := 2\<rparr>)" by (simp add: continue_def)
  then have "shoot g nodes 1 (?t\<lparr>kkk := 2\<rparr>) = Inr (?t\<lparr>kkk := 2\<rparr>)"
    by (rule shoot_stop)
  then show ?thesis using s0 s1 by simp
qed



section \<open>Evaluation on concrete grids\<close>

lemma list_update_numeral:
  "(v # vs)[numeral k := w] = v # vs[pred_numeral k := w]"
  by (simp add: numeral_eq_Suc)

lemma replicate_numeral:
  "replicate (numeral k) v = v # replicate (pred_numeral k) v"
  by (simp add: numeral_eq_Suc)

lemmas eval_simps =
  list_update_numeral replicate_numeral upto.simps Let_def
  for_up_def for_down_def alloc_def cell_def upd_def copysign_def
  make_grid_def grid_body_def f_scan_def f_body_def f_numerov_def check_icl_def
  hnodes_def y_first_def out_body_def outward_def
  coeffs_def icl_at_def y_out_def ncross_at_def
  inward_def rescale_def trapezoid_def y_in_def y_matched_def
  bounds_def trial_def fresh_def continue_def

section \<open>Passes that cannot exit\<close>

lemma stored_f_nonzero: "1 \<le> j \<Longrightarrow> stored_f g en j \<noteq> 0"
  by (simp add: stored_f_def)

lemma stored_f_neg:
  "0 < ddx12 g \<Longrightarrow> cell (vpot g) j < en \<Longrightarrow> stored_f g en j < 0"
  by (simp add: stored_f_def raw_f_def mult_pos_neg)

lemma stored_f_pos:
  assumes "0 < ddx12 g" and "en \<le> cell (vpot g) j" and "1 \<le> j"
  shows "0 < stored_f g en j"
proof (cases "cell (vpot g) j = en")
  case True
  then show ?thesis using assms by (simp add: stored_f_def raw_f_def)
next
  case False
  then have "0 < ddx12 g * 2 * (cell (vpot g) j - en)" using assms by simp
  then show ?thesis by (simp add: stored_f_def raw_f_def)
qed

lemma no_change_neg:
  assumes "\<not> sign_change g en j" and "stored_f g en (j - 1) < 0" and "1 \<le> j"
  shows "stored_f g en j < 0"
proof -
  have "stored_f g en j = - \<bar>stored_f g en j\<bar>"
    using assms(1,2) by (simp add: sign_change_def copysign_def)
  then have "stored_f g en j \<le> 0" by linarith
  then show ?thesis using stored_f_nonzero [OF assms(3), of g en] by simp
qed

lemma no_change_pos:
  "0 < stored_f g en j \<Longrightarrow> 0 < stored_f g en (j - 1) \<Longrightarrow> \<not> sign_change g en j"
  by (simp add: sign_change_def copysign_def)

lemma all_negative:
  assumes "\<forall>j. 1 \<le> j \<and> j \<le> m \<longrightarrow> \<not> sign_change g en j" and "stored_f g en 0 < 0"
    and "0 \<le> k" and "k \<le> m"
  shows "stored_f g en k < 0"
  using assms(3,4)
proof (induction k rule: int_ge_induct)
  case base
  show ?case by (rule assms(2))
next
  case (step i)
  have "1 \<le> i + 1 \<and> i + 1 \<le> m" using step.hyps step.prems by simp
  then have a: "\<not> sign_change g en (i + 1)" using assms(1) by simp
  have b: "stored_f g en (i + 1 - 1) < 0" using step.IH step.prems by simp
  have c: "1 \<le> i + 1" using step.hyps by simp
  show ?case by (rule no_change_neg [OF a b c])
qed

lemma turning_point_found:
  assumes "0 < ddx12 g" and "4 \<le> mesh g" and "cell (vpot g) 0 < en"
    and "\<forall>j\<in>{mesh g - 3..mesh g}. en \<le> cell (vpot g) j"
  shows "check_icl (mesh g) (snd (f_scan g en)) = None"
proof -
  define ic where "ic = snd (f_scan g en)"
  have m: "0 \<le> mesh g" using assms(2) by simp
  have neg0: "stored_f g en 0 < 0" using assms(1,3) by (rule stored_f_neg)
  have pos: "0 < stored_f g en j" if "mesh g - 3 \<le> j" "j \<le> mesh g" for j
  proof (rule stored_f_pos [OF assms(1)])
    show "en \<le> cell (vpot g) j" using assms(4) that by simp
    show "1 \<le> j" using that assms(2) by simp
  qed
  have r: "ic = - 1 \<or> 1 \<le> ic \<and> ic \<le> mesh g \<and> sign_change g en ic"
    unfolding ic_def by (rule f_scan_icl(1) [OF m])
  have after: "\<not> sign_change g en j" if "1 \<le> j" "ic < j" "j \<le> mesh g" for j
    using f_scan_icl(2) [OF m that(1) _ that(3), of en] that(2) unfolding ic_def by blast
  have lo: "1 \<le> ic"
  proof (rule ccontr)
    assume "\<not> 1 \<le> ic"
    then have i: "ic = - 1" using r by linarith
    have "\<forall>j. 1 \<le> j \<and> j \<le> mesh g \<longrightarrow> \<not> sign_change g en j"
      using after i by simp
    then have "stored_f g en (mesh g) < 0"
      using neg0 m by (rule all_negative) simp
    then show False using pos [of "mesh g"] by simp
  qed
  have hi: "ic < mesh g - 2"
  proof (rule ccontr)
    assume a: "\<not> ic < mesh g - 2"
    have c: "ic \<le> mesh g" "sign_change g en ic" using r lo by linarith+
    have p1: "0 < stored_f g en ic" using a c(1) by (intro pos) simp_all
    have p2: "0 < stored_f g en (ic - 1)" using a c(1) by (intro pos) simp_all
    show False using no_change_pos [OF p1 p2] c(2) by blast
  qed
  show ?thesis using lo hi unfolding ic_def [symmetric] by (simp add: check_icl_def)
qed

lemma divide_ge_one:
  fixes w c :: real
  assumes "0 \<le> w" and "1 \<le> c"
  shows "w / c \<le> w"
proof -
  have "1 * w \<le> c * w" using assms by (intro mult_right_mono) simp_all
  then show ?thesis using assms by (simp add: field_simps)
qed

lemma bisection_runs_to_cap:
  assumes "0 < ddx12 g" and "4 \<le> mesh g" and "cell (vpot g) 0 \<le> A"
    and "\<forall>j\<in>{mesh g - 3..mesh g}. B \<le> cell (vpot g) j"
    and "A \<le> elw s" and "eup s \<le> B" and "e s = (eup s + elw s) / 2" and "elw s < eup s"
    and "kkk s \<le> 1001"
    and "kkk s \<le> 1000 \<longrightarrow> (eup s - elw s) / 2 ^ nat (1000 - kkk s) > 1 / 10 ^ 10"
    and "n = nat (1001 - kkk s)"
  shows "\<exists>t. shoot g nodes 1000 s = Inr t \<and> kkk t = 1001 \<and>
             eup t - elw t = (eup s - elw s) / 2 ^ n"
  using assms(5-11)
proof (induction n arbitrary: s)
  case 0
  then have k: "kkk s = 1001" by simp
  then have "\<not> continue 1000 s" by (simp add: continue_def)
  then have "shoot g nodes 1000 s = Inr s" by (rule shoot_stop)
  then show ?case using k by simp
next
  case (Suc n)
  define W where "W = eup s - elw s"
  define tol :: real where "tol = 1 / 10 ^ 10"
  have k: "kkk s \<le> 1000" "n = nat (1000 - kkk s)" using Suc.prems by simp_all
  have p2: "(1::real) \<le> 2 ^ nat (1000 - kkk s)" by simp
  have w: "tol < W / 2 ^ nat (1000 - kkk s)"
    using Suc.prems(6) k(1) unfolding W_def tol_def by blast
  have W0: "0 \<le> W" using Suc.prems(4) by (simp add: W_def)
  have "W / 2 ^ nat (1000 - kkk s) \<le> W" using W0 p2 by (rule divide_ge_one)
  with w have "tol < W" by (rule less_le_trans)
  then have c: "continue 1000 s" unfolding continue_def W_def tol_def using k(1) by blast
  have en: "elw s < e s" "e s < eup s" using Suc.prems(3,4) by simp_all
  have ck: "check_icl (mesh g) (snd (f_scan g (e s))) = None"
  proof (rule turning_point_found [OF assms(1,2)])
    show "cell (vpot g) 0 < e s" using assms(3) Suc.prems(1) en by linarith
    show "\<forall>j\<in>{mesh g - 3..mesh g}. e s \<le> cell (vpot g) j"
    proof
      fix j assume "j \<in> {mesh g - 3..mesh g}"
      then have "B \<le> cell (vpot g) j" using assms(4) by blast
      then show "e s \<le> cell (vpot g) j" using Suc.prems(2) en by linarith
    qed
  qed
  define s1 where "s1 = integrate g nodes 1000 (f_scan g (e s)) s"
  have ps: "pass g nodes 1000 s = Inr s1" using ck unfolding pass_Inr s1_def by blast
  have it: "(1::int) < 1000" by simp
  note h = pass_halves [OF ps it c Suc.prems(3)]
  have h1: "elw s1 < eup s1" and h2: "eup s1 - elw s1 = W / 2" and h3: "elw s \<le> elw s1"
    and h4: "eup s1 \<le> eup s" and h5: "e s1 = (eup s1 + elw s1) / 2"
    using h unfolding W_def by blast+
  define s2 where "s2 = s1\<lparr>kkk := kkk s + 1\<rparr>"
  have f2: "elw s2 = elw s1" "eup s2 = eup s1" "e s2 = e s1" "kkk s2 = kkk s + 1"
    by (simp_all add: s2_def)
  have sh: "shoot g nodes 1000 s = shoot g nodes 1000 s2"
    unfolding s2_def using c ps by (subst shoot.simps) simp
  have w2: "kkk s2 \<le> 1000 \<longrightarrow> (eup s2 - elw s2) / 2 ^ nat (1000 - kkk s2) > 1 / 10 ^ 10"
  proof
    assume "kkk s2 \<le> 1000"
    then have "nat (1000 - kkk s) = Suc (nat (1000 - kkk s2))" unfolding f2 by simp
    then have "(2::real) ^ nat (1000 - kkk s) = 2 * 2 ^ nat (1000 - kkk s2)" by simp
    then have "W / 2 / 2 ^ nat (1000 - kkk s2) = W / 2 ^ nat (1000 - kkk s)" by simp
    then have "tol < W / 2 / 2 ^ nat (1000 - kkk s2)" using w by (simp only:)
    then show "(eup s2 - elw s2) / 2 ^ nat (1000 - kkk s2) > 1 / 10 ^ 10"
      unfolding f2(1,2) h2 tol_def .
  qed
  have "\<exists>t. shoot g nodes 1000 s2 = Inr t \<and> kkk t = 1001 \<and>
             eup t - elw t = (eup s2 - elw s2) / 2 ^ n"
  proof (rule Suc.IH)
    show "A \<le> elw s2" unfolding f2 using h3 Suc.prems(1) by linarith
    show "eup s2 \<le> B" unfolding f2 using h4 Suc.prems(2) by linarith
    show "e s2 = (eup s2 + elw s2) / 2" unfolding f2 by (rule h5)
    show "elw s2 < eup s2" unfolding f2 by (rule h1)
    show "kkk s2 \<le> 1001" unfolding f2 using k by simp
    show "kkk s2 \<le> 1000 \<longrightarrow> (eup s2 - elw s2) / 2 ^ nat (1000 - kkk s2) > 1 / 10 ^ 10"
      by (rule w2)
    show "n = nat (1001 - kkk s2)" unfolding f2 using k by simp
  qed
  then obtain t where t: "shoot g nodes 1000 s2 = Inr t" "kkk t = 1001"
    "eup t - elw t = (eup s2 - elw s2) / 2 ^ n" by blast
  have "(eup s2 - elw s2) / 2 ^ n = W / 2 ^ Suc n" unfolding f2(1,2) h2 by simp
  then have "eup t - elw t = (eup s - elw s) / 2 ^ Suc n" using t(3) unfolding W_def by simp
  then show ?case using sh t(1,2) by simp
qed

section \<open>A search on the very wide grid\<close>

lemma outward_count_ge: "n \<le> snd (for_up lo hi (out_body fn) (a, n))"
proof (cases "lo - 1 \<le> hi")
  case True
  show ?thesis
    by (rule for_up_induct [where P = "\<lambda>k r. n \<le> snd r", OF _ _ True])
       (simp_all add: out_body_def Let_def)
next
  case False
  then show ?thesis by (simp add: for_up_empty)
qed

lemma y_first_even:
  assumes "1 \<le> mesh g" and "2 * hnodes nodes = nodes"
  shows "cell (y_first g nodes fn) 0 = 1"
    and "cell (y_first g nodes fn) 1 = 0.5 * (12 - cell fn 0 * 10) * 1 / cell fn 1"
  using assms
  by (simp_all add: y_first_def Let_def cell_upd length_upd for_up_map_length length_alloc)

lemma first_crossing:
  assumes "2 \<le> icl_at g en" and "2 \<le> mesh g" and "2 * hnodes nodes = nodes"
    and "y1 = 0.5 * (12 - cell (coeffs g en) 0 * 10) * 1 / cell (coeffs g en) 1"
    and "y2 = ((12 - cell (coeffs g en) 1 * 10) * y1 - cell (coeffs g en) 0 * 1)
                / cell (coeffs g en) 2"
    and "y1 < 0" and "0 < y2"
  shows "2 \<le> ncross_at g nodes en"
proof -
  let ?fn = "coeffs g en"
  let ?yf = "y_first g nodes ?fn"
  have m: "1 \<le> mesh g" using assms(2) by simp
  have c0: "cell ?yf 0 = 1" and c1: "cell ?yf 1 = y1"
    using y_first_even [OF m assms(3), of ?fn] assms(4) by simp_all
  have len: "nat 2 < length ?yf" using assms(2) by (simp add: y_first_length)
  define b where "b = out_body ?fn 1 (?yf, 0)"
  have b1: "cell (fst b) 1 = y1"
    unfolding b_def using c1 by (simp add: out_body_def Let_def cell_upd_other)
  have b2: "cell (fst b) 2 = y2"
    unfolding b_def using c0 c1 len assms(5)
    by (simp add: out_body_def Let_def cell_upd_same)
  have "cell (fst b) (1::int) \<noteq> copysign (cell (fst b) 1) (cell (fst b) 2)"
    unfolding b1 b2 using assms(6,7) by (simp add: copysign_def)
  then have sb: "snd b = 1"
    unfolding b_def by (simp add: out_body_def Let_def)
  have "for_up 1 (icl_at g en - 1) (out_body ?fn) (?yf, 0)
          = for_up (1 + 1) (icl_at g en - 1) (out_body ?fn) b"
    unfolding b_def using assms(1) by (intro for_up_first) simp
  also have "\<dots> = for_up 2 (icl_at g en - 1) (out_body ?fn) (fst b, 1)"
    using sb by (metis one_add_one prod.collapse)
  finally have "1 \<le> snd (for_up 1 (icl_at g en - 1) (out_body ?fn) (?yf, 0))"
    using outward_count_ge [of 1 2 "icl_at g en - 1" ?fn "fst b"] by simp
  then show ?thesis
    using assms(3) by (simp add: ncross_at_def outward_def Let_def)
qed

lemma icl_not_one:
  assumes "0 \<le> mesh g" and "stored_f g en 0 < 0" and "stored_f g en 1 < 0"
  shows "icl_at g en \<noteq> 1"
proof
  assume a: "icl_at g en = 1"
  then have "sign_change g en 1"
    using f_scan_icl(1) [OF assms(1), of en] by (simp add: icl_at_def)
  then show False using assms(2,3) by (simp add: sign_change_def copysign_def)
qed

lemma wide_fields:
  "mesh wide_grid = 11"
  "ddx12 wide_grid = 2 ^ 1000 / 12"
  by (simp_all add: wide_grid_def make_grid_fields)

lemma wide_vpot:
  assumes "0 \<le> j" and "j \<le> 11"
  shows "cell (vpot wide_grid) j = real_of_int (j * j) * 2 ^ 999"
  using make_grid_arrays(4) [of 11 j "11 * 2 ^ 500"] assms by (simp add: wide_grid_def)

lemma wide_bounds: "bounds wide_grid = (0, 121 * 2 ^ 999)"
  by (simp add: wide_grid_def eval_simps)

lemma wide_start:
  "fst (trial wide_grid 0 w) = 1000"
  "elw (snd (trial wide_grid 0 w)) = 0"
  "eup (snd (trial wide_grid 0 w)) = 121 * 2 ^ 999"
  "e (snd (trial wide_grid 0 w)) = 121 * 2 ^ 998"
  "kkk (snd (trial wide_grid 0 w)) = 0"
  by (simp_all add: trial_def Let_def wide_bounds)

lemma coeffs_cell:
  "0 \<le> j \<Longrightarrow> j \<le> mesh g \<Longrightarrow> cell (coeffs g en) j = 1 - stored_f g en j"
  by (simp add: coeffs_def coefficient_cell)

lemma wide_coeffs:
  assumes "en = 121 * 2 ^ 998"
  shows "cell (coeffs wide_grid en) 0 = 1 + 121 * (2 ^ 2000 / 24)"
    and "cell (coeffs wide_grid en) 1 = 1 + 119 * (2 ^ 2000 / 24)"
    and "cell (coeffs wide_grid en) 2 = 1 + 113 * (2 ^ 2000 / 24)"
  using assms
  by (simp_all add: coeffs_cell wide_fields wide_vpot stored_f_def raw_f_def)

lemma wide_stored_neg:
  assumes "en = 121 * 2 ^ 998"
  shows "stored_f wide_grid en 0 < 0" and "stored_f wide_grid en 1 < 0"
  using assms by (simp_all add: wide_fields wide_vpot stored_f_def raw_f_def)

lemma wide_no_exit:
  assumes "0 < en" and "en \<le> 121 * 2 ^ 998"
  shows "check_icl (mesh wide_grid) (snd (f_scan wide_grid en)) = None"
proof (rule turning_point_found)
  show "0 < ddx12 wide_grid" by (simp add: wide_fields)
  show "4 \<le> mesh wide_grid" by (simp add: wide_fields)
  show "cell (vpot wide_grid) 0 < en" using assms(1) by (simp add: wide_vpot)
  show "\<forall>j\<in>{mesh wide_grid - 3..mesh wide_grid}. en \<le> cell (vpot wide_grid) j"
  proof
    fix j assume "j \<in> {mesh wide_grid - 3..mesh wide_grid}"
    then have j: "8 \<le> j" "j \<le> 11" by (simp_all add: wide_fields)
    then have "8 * 8 \<le> j * j" by (intro mult_mono) simp_all
    then have "(64::real) \<le> real_of_int (j * j)" by linarith
    then have "64 * 2 ^ 999 \<le> real_of_int (j * j) * (2::real) ^ 999"
      by (intro mult_right_mono) simp_all
    moreover have "(121::real) * 2 ^ 998 \<le> 64 * 2 ^ 999" by simp
    moreover have "cell (vpot wide_grid) j = real_of_int (j * j) * 2 ^ 999"
      using j by (intro wide_vpot) simp_all
    ultimately show "en \<le> cell (vpot wide_grid) j" using assms(2) by linarith
  qed
qed

lemma wide_high: "\<forall>j\<in>{mesh wide_grid - 3..mesh wide_grid}. 121 * 2 ^ 998 \<le> cell (vpot wide_grid) j"
proof
  fix j assume "j \<in> {mesh wide_grid - 3..mesh wide_grid}"
  then have j: "8 \<le> j" "j \<le> 11" by (simp_all add: wide_fields)
  then have "8 * 8 \<le> j * j" by (intro mult_mono) simp_all
  then have "(64::real) \<le> real_of_int (j * j)" by linarith
  then have "64 * 2 ^ 999 \<le> real_of_int (j * j) * (2::real) ^ 999"
    by (intro mult_right_mono) simp_all
  moreover have "(121::real) * 2 ^ 998 \<le> 64 * 2 ^ 999" by simp
  moreover have "cell (vpot wide_grid) j = real_of_int (j * j) * 2 ^ 999"
    using j by (intro wide_vpot) simp_all
  ultimately show "121 * 2 ^ 998 \<le> cell (vpot wide_grid) j" by linarith
qed

lemma crossing_arith:
  fixes K F0 F1 F2 y1 y2 :: real
  assumes "1 \<le> K" and "F0 = 1 + 121 * K" and "F1 = 1 + 119 * K" and "F2 = 1 + 113 * K"
    and "y1 = 0.5 * (12 - F0 * 10) * 1 / F1"
    and "y2 = ((12 - F1 * 10) * y1 - F0 * 1) / F2"
  shows "y1 < 0" and "0 < y2"
proof -
  have p1: "0 < F1" and p2: "0 < F2" using assms(1,3,4) by simp_all
  have a: "y1 = (1 - 605 * K) / F1"
    unfolding assms(5) assms(2) using p1 by (simp add: field_simps)
  have "1 - 605 * K < 0" using assms(1) by simp
  then show "y1 < 0" unfolding a using p1 by (simp add: divide_neg_pos)
  have "K * 1 \<le> K * K" using assms(1) by (intro mult_left_mono) simp_all
  then have n: "0 < 1 - 2640 * K + 705551 * (K * K)" using assms(1) by linarith
  have "(12 - F1 * 10) * y1 - F0 * 1 = ((12 - F1 * 10) * (1 - 605 * K) - F0 * F1) / F1"
    unfolding a using p1 by (simp add: field_simps)
  also have "(12 - F1 * 10) * (1 - 605 * K) - F0 * F1 = 1 - 2640 * K + 705551 * (K * K)"
    unfolding assms(2,3) by (simp add: algebra_simps)
  finally have "y2 = (1 - 2640 * K + 705551 * (K * K)) / F1 / F2"
    unfolding assms(6) by simp
  then show "0 < y2" using n p1 p2 by simp
qed

lemma wide_first_crossing:
  assumes "en = 121 * 2 ^ 998"
  shows "2 \<le> ncross_at wide_grid 0 en"
proof -
  have en: "0 < en" "en \<le> 121 * 2 ^ 998" using assms by simp_all
  have "check_icl (mesh wide_grid) (icl_at wide_grid en) = None"
    unfolding icl_at_def by (rule wide_no_exit [OF en])
  then have "1 \<le> icl_at wide_grid en" by (simp add: check_icl_def split: if_splits)
  moreover have "icl_at wide_grid en \<noteq> 1"
    by (rule icl_not_one) (simp_all add: wide_fields wide_stored_neg [OF assms])
  ultimately have ic: "2 \<le> icl_at wide_grid en" by linarith
  define y1 where "y1 = 0.5 * (12 - cell (coeffs wide_grid en) 0 * 10) * 1
                           / cell (coeffs wide_grid en) 1"
  define y2 where "y2 = ((12 - cell (coeffs wide_grid en) 1 * 10) * y1
                           - cell (coeffs wide_grid en) 0 * 1) / cell (coeffs wide_grid en) 2"
  have K: "(1::real) \<le> 2 ^ 2000 / 24" by simp
  note ar = crossing_arith [OF K wide_coeffs [OF assms] y1_def y2_def]
  have n1: "y1 < 0" by (rule ar(1))
  have n2: "0 < y2" by (rule ar(2))
  show ?thesis
    by (rule first_crossing [OF ic _ _ y1_def y2_def n1 n2])
       (simp_all add: wide_fields hnodes_def)
qed

lemma wide_run:
  "\<exists>t. shoot wide_grid 0 1000 (snd (trial wide_grid 0 w)) = Inr t \<and> kkk t = 1001 \<and>
       eup t - elw t = 121 / 4"
proof -
  define s0 where "s0 = snd (trial wide_grid 0 w)"
  have f0: "elw s0 = 0" "eup s0 = 121 * 2 ^ 999" "e s0 = 121 * 2 ^ 998" "kkk s0 = 0"
    unfolding s0_def by (rule wide_start)+
  have nc: "2 \<le> ncross_at wide_grid 0 (e s0)" by (rule wide_first_crossing [OF f0(3)])
  have "0 < e s0" "e s0 \<le> 121 * 2 ^ 998" unfolding f0(3) by simp_all
  then have ck: "check_icl (mesh wide_grid) (snd (f_scan wide_grid (e s0))) = None"
    by (rule wide_no_exit)
  define s1 where "s1 = integrate wide_grid 0 1000 (f_scan wide_grid (e s0)) s0"
  have ps: "pass wide_grid 0 1000 s0 = Inr s1" using ck unfolding pass_Inr s1_def by blast
  have it: "(1::int) < 1000" by simp
  have ne: "ncross_at wide_grid 0 (e s0) \<noteq> 0" "ncross_at wide_grid 0 (e s0) > 0"
    using nc by simp_all
  have f1: "elw s1 = elw s0" "eup s1 = e s0" "e s1 = (eup s1 + elw s1) / 2"
    unfolding s1_def integrate_bracketing [OF it ne(1)] using ne(2) by (simp_all add: Let_def)
  have c0: "continue 1000 s0" unfolding continue_def f0 by simp
  define s2 where "s2 = s1\<lparr>kkk := kkk s0 + 1\<rparr>"
  have f2: "elw s2 = 0" "eup s2 = 121 * 2 ^ 998" "e s2 = (eup s2 + elw s2) / 2" "kkk s2 = 1"
    using f1 f0 by (simp_all add: s2_def)
  have sh: "shoot wide_grid 0 1000 s0 = shoot wide_grid 0 1000 s2"
    unfolding s2_def using c0 ps by (subst shoot.simps) simp
  have "\<exists>t. shoot wide_grid 0 1000 s2 = Inr t \<and> kkk t = 1001 \<and>
             eup t - elw t = (eup s2 - elw s2) / 2 ^ 1000"
  proof (rule bisection_runs_to_cap [where A = 0 and B = "121 * 2 ^ 998"])
    show "0 < ddx12 wide_grid" by (simp add: wide_fields)
    show "4 \<le> mesh wide_grid" by (simp add: wide_fields)
    show "cell (vpot wide_grid) 0 \<le> 0" by (simp add: wide_vpot)
    show "\<forall>j\<in>{mesh wide_grid - 3..mesh wide_grid}. 121 * 2 ^ 998 \<le> cell (vpot wide_grid) j"
      by (rule wide_high)
    show "0 \<le> elw s2" unfolding f2 by simp
    show "eup s2 \<le> 121 * 2 ^ 998" unfolding f2 by simp
    show "e s2 = (eup s2 + elw s2) / 2" by (rule f2(3))
    show "elw s2 < eup s2" unfolding f2(1,2) by simp
    show "kkk s2 \<le> 1001" unfolding f2 by simp
    show "kkk s2 \<le> 1000 \<longrightarrow> 1 / 10 ^ 10 < (eup s2 - elw s2) / 2 ^ nat (1000 - kkk s2)"
      unfolding f2(1,2,4) by simp
    show "1000 = nat (1001 - kkk s2)" unfolding f2 by simp
  qed
  then obtain t where t: "shoot wide_grid 0 1000 s2 = Inr t" "kkk t = 1001"
    "eup t - elw t = (eup s2 - elw s2) / 2 ^ 1000" by blast
  have "(eup s2 - elw s2) / 2 ^ 1000 = (121 / 4 :: real)" unfolding f2(1,2) by simp
  then show ?thesis using sh t unfolding s0_def by simp
qed

section \<open>A search on the very narrow grid\<close>









section \<open>The Numerov coefficient\<close>

lemma coefficient_arith:
  fixes D V E R F k :: real
  assumes "0 < D" and "R = D * (V - E)" and "F = 1 - (if c \<and> R = 0 then k else R)"
  shows "F = (if c \<and> V = E then 1 - k else 1 - D * (V - E)) \<and>
         (V < E \<longrightarrow> F > 1) \<and> (V > E \<longrightarrow> F < 1)"
proof -
  consider (lt) "V < E" | (eq) "V = E" | (gt) "V > E" by linarith
  then show ?thesis
  proof cases
    case lt
    then have "R < 0" using assms(1,2) by (simp add: mult_pos_neg)
    then show ?thesis using lt assms by simp
  next
    case eq
    then show ?thesis using assms by simp
  next
    case gt
    then have "R > 0" using assms(1,2) by simp
    then show ?thesis using gt assms by simp
  qed
qed

text \<open>
  C3, as amended.  In every pass that does not exit, on a grid built for \<open>mesh \<ge> 1\<close>
  and \<open>xmax \<noteq> 0\<close>, the array \<open>f\<close> left for the Numerov recursion satisfies
  \<open>f[i] = 1 - (dx\<^sup>2/6) * (vpot[i] - e)\<close> for \<open>i = 0..mesh\<close>, where \<open>e\<close> is the trial
  energy of that pass, except that \<open>f[i] = 1 - 1e-20\<close> where \<open>i \<ge> 1\<close> and
  \<open>vpot[i] = e\<close>.  The encoding is the reverse of the one claimed:
  \<open>vpot[i] < e\<close> (classically allowed) gives \<open>f[i] > 1\<close> and \<open>vpot[i] > e\<close>
  (forbidden) gives \<open>f[i] < 1\<close>.
\<close>

theorem numerov_coefficient:
  assumes "pass (make_grid xm m) nodes it s = Inr s1" and "1 \<le> m" and "xm \<noteq> 0"
  shows "\<forall>i\<in>{0..m}.
           cell (f s1) i =
             (if 1 \<le> i \<and> cell (vpot (make_grid xm m)) i = e s then 1 - 1 / 10 ^ 20
              else 1 - (dx (make_grid xm m))\<^sup>2 / 6 * (cell (vpot (make_grid xm m)) i - e s)) \<and>
           (cell (vpot (make_grid xm m)) i < e s \<longrightarrow> cell (f s1) i > 1) \<and>
           (cell (vpot (make_grid xm m)) i > e s \<longrightarrow> cell (f s1) i < 1)"
proof
  fix i assume "i \<in> {0..m}"
  then have i: "0 \<le> i" "i \<le> mesh (make_grid xm m)" by (simp_all add: make_grid_fields)
  let ?g = "make_grid xm m"
  have "dx ?g \<noteq> 0" using assms by (simp add: make_grid_fields)
  then have d2: "0 < (dx ?g)\<^sup>2 / 6" by simp
  have r: "raw_f ?g (e s) i = (dx ?g)\<^sup>2 / 6 * (cell (vpot ?g) i - e s)"
    by (simp add: raw_f_def make_grid_fields(3) power2_eq_square)
  have c: "cell (f s1) i = 1 - (if 1 \<le> i \<and> raw_f ?g (e s) i = 0 then 1 / 10 ^ 20
                                else raw_f ?g (e s) i)"
    using assms(1) i by (simp add: pass_Inr coefficient_cell stored_f_def)
  show "cell (f s1) i =
             (if 1 \<le> i \<and> cell (vpot ?g) i = e s then 1 - 1 / 10 ^ 20
              else 1 - (dx ?g)\<^sup>2 / 6 * (cell (vpot ?g) i - e s)) \<and>
           (cell (vpot ?g) i < e s \<longrightarrow> cell (f s1) i > 1) \<and>
           (cell (vpot ?g) i > e s \<longrightarrow> cell (f s1) i < 1)"
    by (rule coefficient_arith [OF d2 r c])
qed

theorem numerov_coefficient_witness:
  "pass (make_grid 4 4) 0 1 (snd (trial (make_grid 4 4) (1 / 4) (fresh (make_grid 4 4))))
     = Inr (integrate (make_grid 4 4) 0 1 (f_scan (make_grid 4 4) (1 / 4))
              (snd (trial (make_grid 4 4) (1 / 4) (fresh (make_grid 4 4))))) \<and>
   (1::int) \<le> 4 \<and> (4::real) \<noteq> 0 \<and>
   cell (vpot (make_grid 4 4)) 0 < 1 / 4 \<and>
   cell (f (integrate (make_grid 4 4) 0 1 (f_scan (make_grid 4 4) (1 / 4))
              (snd (trial (make_grid 4 4) (1 / 4) (fresh (make_grid 4 4)))))) 0 > 1"
proof -
  let ?g = "make_grid 4 4"
  let ?s = "snd (trial ?g (1 / 4) (fresh ?g))"
  have en: "e ?s = 1 / 4" by (simp add: trial_def Let_def)
  have ck: "check_icl (mesh ?g) (snd (f_scan ?g (1 / 4))) = None" by code_simp
  have ps: "pass ?g 0 1 ?s = Inr (integrate ?g 0 1 (f_scan ?g (1 / 4)) ?s)"
    using ck by (simp add: pass_Inr en)
  have v: "cell (vpot ?g) 0 < 1 / 4" by code_simp
  have "(0::int) \<in> {0..4}" by simp
  with numerov_coefficient [OF ps] v show ?thesis using ps en by auto
qed

text \<open>
  C3 as stated fails in its second part: on the grid for \<open>xmax = 4\<close>, \<open>mesh = 4\<close> and at
  the fixed trial energy \<open>1/4\<close>, \<open>vpot[0] = 0 < e\<close> and yet \<open>f[0] = 25/24\<close>, which is
  not below 1.
\<close>

theorem allowed_region_counterexample:
  "cell (vpot (make_grid 4 4)) 0
     < e (snd (trial (make_grid 4 4) (1 / 4) (fresh (make_grid 4 4)))) \<and>
   \<not> isl (pass (make_grid 4 4) 0 1 (snd (trial (make_grid 4 4) (1 / 4) (fresh (make_grid 4 4))))) \<and>
   cell (f (projr (pass (make_grid 4 4) 0 1
                     (snd (trial (make_grid 4 4) (1 / 4) (fresh (make_grid 4 4))))))) 0
     = 25 / 24"
proof -
  let ?g = "make_grid 4 4"
  let ?s = "snd (trial ?g (1 / 4) (fresh ?g))"
  have en: "e ?s = 1 / 4" by (simp add: trial_def Let_def)
  have ck: "check_icl (mesh ?g) (snd (f_scan ?g (1 / 4))) = None" by code_simp
  have ps: "pass ?g 0 1 ?s = Inr (integrate ?g 0 1 (f_scan ?g (1 / 4)) ?s)"
    using ck by (simp add: pass_Inr en)
  have v: "cell (vpot ?g) 0 < 1 / 4" by code_simp
  have c: "cell (f_numerov (mesh ?g) (fst (f_scan ?g (1 / 4)))) 0 = 25 / 24" by code_simp
  show ?thesis using v c by (simp add: ps en)
qed

section \<open>The perturbation of an exact zero\<close>

lemma copysign_pos: "0 < a \<Longrightarrow> (a \<noteq> copysign a b) = (b < 0)"
  by (simp add: copysign_def)

text \<open>
  C7, as amended.  While the f-array is built, at every index \<open>i = 1..mesh\<close> where
  \<open>ddx12 * 2 * (vpot[i] - e)\<close> is exactly zero the stored value is \<open>1e-20\<close>, positive
  whatever the previous value; the test of line 118 then sees a change of sign at \<open>i\<close>
  exactly when the previous stored value is negative, and in that case the index
  \<open>icl\<close> found by the scan is at least \<open>i\<close>: the change of sign is not missed.
\<close>

theorem zero_perturbed_positive:
  assumes "1 \<le> i" and "i \<le> mesh g" and "ddx12 g * 2 * (cell (vpot g) i - en) = 0"
  shows "cell (fst (f_scan g en)) i = 1 / 10 ^ 20 \<and>
         ((cell (fst (f_scan g en)) i
             \<noteq> copysign (cell (fst (f_scan g en)) i) (cell (fst (f_scan g en)) (i - 1)))
            = (cell (fst (f_scan g en)) (i - 1) < 0)) \<and>
         (cell (fst (f_scan g en)) (i - 1) < 0 \<longrightarrow> i \<le> snd (f_scan g en))"
proof -
  have m: "0 \<le> mesh g" using assms by simp
  have ci: "cell (fst (f_scan g en)) i = stored_f g en i"
    using assms by (simp add: f_scan_cell)
  have cp: "cell (fst (f_scan g en)) (i - 1) = stored_f g en (i - 1)"
    using assms by (simp add: f_scan_cell)
  have v: "stored_f g en i = 1 / 10 ^ 20"
    using assms by (simp add: stored_f_def raw_f_def)
  have sc: "sign_change g en i = (stored_f g en (i - 1) < 0)"
    unfolding sign_change_def v by (rule copysign_pos) simp
  have "i \<le> snd (f_scan g en)" if "stored_f g en (i - 1) < 0"
  proof (rule ccontr)
    assume "\<not> i \<le> snd (f_scan g en)"
    then have "\<not> sign_change g en i"
      using f_scan_icl(2) [OF m, of i en] assms by simp
    then show False using sc that by simp
  qed
  then show ?thesis
    using sc by (simp add: ci cp v sign_change_def)
qed

theorem zero_perturbed_positive_witness:
  "(1::int) \<le> 1 \<and> 1 \<le> mesh (make_grid 4 4) \<and>
   ddx12 (make_grid 4 4) * 2 * (cell (vpot (make_grid 4 4)) 1 - 1 / 2) = 0 \<and>
   cell (fst (f_scan (make_grid 4 4) (1 / 2))) 1 = 1 / 10 ^ 20 \<and>
   cell (fst (f_scan (make_grid 4 4) (1 / 2))) (1 - 1) < 0 \<and>
   1 \<le> snd (f_scan (make_grid 4 4) (1 / 2))"
proof -
  have h1: "(1::int) \<le> 1" by simp
  have h2: "1 \<le> mesh (make_grid 4 4)" by (simp add: make_grid_fields)
  have h3: "ddx12 (make_grid 4 4) * 2 * (cell (vpot (make_grid 4 4)) 1 - 1 / 2) = 0"
    by code_simp
  have p: "cell (fst (f_scan (make_grid 4 4) (1 / 2))) (1 - 1) < 0" by code_simp
  show ?thesis
    using zero_perturbed_positive [OF h1 h2 h3] h1 h2 h3 p by simp
qed

text \<open>
  C7 as stated fails: on the grid for \<open>xmax = 4\<close>, \<open>mesh = 4\<close> and at the trial energy
  \<open>1/2 = vpot[1]\<close> the previous value \<open>f[0] = -1/12\<close> is negative and the stored
  \<open>f[1]\<close> is \<open>+1e-20\<close>, not \<open>1e-20\<close> with the sign of the previous value.
\<close>

theorem perturbation_sign_counterexample:
  "ddx12 (make_grid 4 4) * 2 * (cell (vpot (make_grid 4 4)) 1 - 1 / 2) = 0 \<and>
   cell (fst (f_scan (make_grid 4 4) (1 / 2))) 0 = - (1 / 12) \<and>
   cell (fst (f_scan (make_grid 4 4) (1 / 2))) 1 = 1 / 10 ^ 20 \<and>
   cell (fst (f_scan (make_grid 4 4) (1 / 2))) 1
     \<noteq> copysign (1 / 10 ^ 20) (cell (fst (f_scan (make_grid 4 4) (1 / 2))) 0)"
  by code_simp

section \<open>The checks on the turning point\<close>

text \<open>
  C8.  In any pass of a search (the loop started by \<open>trial\<close> has reached the
  variables \<open>t\<close> and runs one more pass), the pass exits exactly when the index \<open>icl\<close>
  found by the scan of the f-array is below 1 or at least \<open>mesh - 2\<close>; the exit is
  \<open>TooFar\<close> when \<open>icl \<ge> mesh - 2\<close> (tested first) and \<open>NoTurningPoint\<close> otherwise, has
  status 1 and a diagnostic message, and ends the loop and the search with no
  table; in every other case the pass yields the next variables.
\<close>

theorem turning_point_exits:
  assumes "reaches g nodes it (snd (trial g e_in w)) t" and "continue it t"
    and "it = fst (trial g e_in w)" and "0 \<le> nodes"
  shows "(isl (pass g nodes it t)
            = (snd (f_scan g (e t)) < 1 \<or> snd (f_scan g (e t)) \<ge> mesh g - 2)) \<and>
         (\<forall>ex. pass g nodes it t = Inl ex \<longrightarrow>
            ex = (if snd (f_scan g (e t)) \<ge> mesh g - 2 then TooFar else NoTurningPoint) \<and>
            exit_status ex = 1 \<and> diagnostic ex \<noteq> [] \<and>
            shoot g nodes it (snd (trial g e_in w)) = Inl ex \<and>
            search_once g w (Some nodes) e_in = Inl ex)"
proof (intro conjI allI impI)
  show "isl (pass g nodes it t)
            = (snd (f_scan g (e t)) < 1 \<or> snd (f_scan g (e t)) \<ge> mesh g - 2)"
    by (auto simp: pass_isl check_icl_def)
next
  fix ex assume a: "pass g nodes it t = Inl ex"
  then show k: "ex = (if snd (f_scan g (e t)) \<ge> mesh g - 2 then TooFar else NoTurningPoint)"
    by (auto simp: pass_Inl check_icl_def split: if_splits)
  then show "exit_status ex = 1" "diagnostic ex \<noteq> []" by (simp_all split: if_splits)
  show sh: "shoot g nodes it (snd (trial g e_in w)) = Inl ex"
    using reaches_shoot [OF assms(1)] shoot_exit [OF assms(2) a] by simp
  show "search_once g w (Some nodes) e_in = Inl ex"
    using sh assms(3,4) by (simp add: search_once_def Let_def)
qed


theorem turning_point_exits_witness:
  "reaches (make_grid 4 4) 0 (fst (trial (make_grid 4 4) 0 (fresh (make_grid 4 4))))
     (snd (trial (make_grid 4 4) 0 (fresh (make_grid 4 4))))
     (snd (trial (make_grid 4 4) 0 (fresh (make_grid 4 4)))) \<and>
   continue (fst (trial (make_grid 4 4) 0 (fresh (make_grid 4 4))))
     (snd (trial (make_grid 4 4) 0 (fresh (make_grid 4 4)))) \<and>
   (0::int) \<le> 0 \<and>
   pass (make_grid 4 4) 0 (fst (trial (make_grid 4 4) 0 (fresh (make_grid 4 4))))
     (snd (trial (make_grid 4 4) 0 (fresh (make_grid 4 4)))) = Inl TooFar \<and>
   search_once (make_grid 4 4) (fresh (make_grid 4 4)) (Some 0) 0 = Inl TooFar \<and>
   reaches (make_grid 4 4) 0 (fst (trial (make_grid 4 4) (- 1) (fresh (make_grid 4 4))))
     (snd (trial (make_grid 4 4) (- 1) (fresh (make_grid 4 4))))
     (snd (trial (make_grid 4 4) (- 1) (fresh (make_grid 4 4)))) \<and>
   continue (fst (trial (make_grid 4 4) (- 1) (fresh (make_grid 4 4))))
     (snd (trial (make_grid 4 4) (- 1) (fresh (make_grid 4 4)))) \<and>
   pass (make_grid 4 4) 0 (fst (trial (make_grid 4 4) (- 1) (fresh (make_grid 4 4))))
     (snd (trial (make_grid 4 4) (- 1) (fresh (make_grid 4 4)))) = Inl NoTurningPoint \<and>
   search_once (make_grid 4 4) (fresh (make_grid 4 4)) (Some 0) (- 1) = Inl NoTurningPoint"
proof -
  let ?g = "make_grid 4 4"
  let ?a = "trial ?g 0 (fresh ?g)"
  let ?b = "trial ?g (- 1) (fresh ?g)"
  have ra: "reaches ?g 0 (fst ?a) (snd ?a) (snd ?a)" by (rule reaches_here)
  have rb: "reaches ?g 0 (fst ?b) (snd ?b) (snd ?b)" by (rule reaches_here)
  have ca: "continue (fst ?a) (snd ?a)" by code_simp
  have cb: "continue (fst ?b) (snd ?b)" by code_simp
  have n: "(0::int) \<le> 0" by simp
  have ea: "e (snd ?a) = 4" by code_simp
  have eb: "e (snd ?b) = - 1" by code_simp
  have "check_icl (mesh ?g) (snd (f_scan ?g 4)) = Some TooFar" by code_simp
  then have pa: "pass ?g 0 (fst ?a) (snd ?a) = Inl TooFar" by (simp add: pass_Inl ea)
  have "check_icl (mesh ?g) (snd (f_scan ?g (- 1))) = Some NoTurningPoint" by code_simp
  then have pb: "pass ?g 0 (fst ?b) (snd ?b) = Inl NoTurningPoint" by (simp add: pass_Inl eb)
  have sa: "search_once ?g (fresh ?g) (Some 0) 0 = Inl TooFar"
    using turning_point_exits [OF ra ca refl n] pa by blast
  have sb: "search_once ?g (fresh ?g) (Some 0) (- 1) = Inl NoTurningPoint"
    using turning_point_exits [OF rb cb refl n] pb by blast
  show ?thesis using ra rb ca cb pa pb sa sb by simp
qed

section \<open>Refinement by the derivative discontinuity\<close>

text \<open>
  C1.  In bisection mode (\<open>iterate > 1\<close>), in a pass whose outward node count equals
  the requested \<open>nodes\<close>, \<open>y\<close> is the matched and normalized array
  (\<open>wavefunction\<close>: inward integration, rescaling, normalization), \<open>djump\<close> is
  \<open>(y[icl+1] + y[icl-1] - (14 - 12*f[icl]) * y[icl]) / dx\<close> on that array, the
  bracket is narrowed by the sign of \<open>djump * y[icl]\<close> (\<open>eup := e\<close> when positive,
  \<open>elw := e\<close> otherwise) and the new trial energy is \<open>(eup + elw)/2\<close>.
\<close>

theorem djump_refinement:
  assumes "pass g nodes it s = Inr s1" and "1 < it" and "ncross_at g nodes (e s) = nodes"
  shows "icl s1 = icl_at g (e s) \<and> f s1 = coeffs g (e s) \<and>
         y s1 = wavefunction g nodes (e s) \<and>
         djump s1 = (cell (y s1) (icl s1 + 1) + cell (y s1) (icl s1 - 1)
                       - (14 - 12 * cell (f s1) (icl s1)) * cell (y s1) (icl s1)) / dx g \<and>
         (if djump s1 * cell (y s1) (icl s1) > 0
          then eup s1 = e s \<and> elw s1 = elw s
          else elw s1 = e s \<and> eup s1 = eup s) \<and>
         e s1 = (eup s1 + elw s1) / 2"
proof -
  have "s1 = refine g (s\<lparr>icl := icl_at g (e s), f := coeffs g (e s),
                          y := wavefunction g nodes (e s)\<rparr>)"
    using assms by (simp add: pass_Inr integrate_matching)
  then show ?thesis by (simp add: refine_def Let_def)
qed

theorem djump_refinement_witness:
  "pass (make_grid 1 11) 0 1000 (snd (trial (make_grid 1 11) 0 (fresh (make_grid 1 11))))
     = Inr (integrate (make_grid 1 11) 0 1000 (f_scan (make_grid 1 11) (1 / 4))
              (snd (trial (make_grid 1 11) 0 (fresh (make_grid 1 11))))) \<and>
   (1::int) < 1000 \<and>
   ncross_at (make_grid 1 11) 0
     (e (snd (trial (make_grid 1 11) 0 (fresh (make_grid 1 11))))) = 0 \<and>
   icl (integrate (make_grid 1 11) 0 1000 (f_scan (make_grid 1 11) (1 / 4))
              (snd (trial (make_grid 1 11) 0 (fresh (make_grid 1 11))))) = 8 \<and>
   y (integrate (make_grid 1 11) 0 1000 (f_scan (make_grid 1 11) (1 / 4))
              (snd (trial (make_grid 1 11) 0 (fresh (make_grid 1 11)))))
     = wavefunction (make_grid 1 11) 0 (1 / 4)"
proof -
  let ?g = "make_grid 1 11"
  let ?s = "snd (trial ?g 0 (fresh ?g))"
  have en: "e ?s = 1 / 4" by (simp add: eval_simps)
  have ck: "check_icl (mesh ?g) (snd (f_scan ?g (1 / 4))) = None" by (simp add: eval_simps)
  have ps: "pass ?g 0 1000 ?s = Inr (integrate ?g 0 1000 (f_scan ?g (1 / 4)) ?s)"
    using ck by (simp add: pass_Inr en)
  have it: "(1::int) < 1000" by simp
  have "ncross_at ?g 0 (1 / 4) = 0" by (simp add: eval_simps)
  then have nc: "ncross_at ?g 0 (e ?s) = 0" unfolding en .
  have ic: "icl_at ?g (1 / 4) = 8" by (simp add: eval_simps)
  note t = djump_refinement [OF ps it nc]
  have a: "icl (integrate ?g 0 1000 (f_scan ?g (1 / 4)) ?s) = 8"
    using t ic unfolding en by (elim conjE) (rule trans)
  have b: "y (integrate ?g 0 1000 (f_scan ?g (1 / 4)) ?s) = wavefunction ?g 0 (1 / 4)"
    using t unfolding en by (elim conjE)
  show ?thesis
    by (intro conjI ps it nc a b)
qed

section \<open>The bisection bracket\<close>

text \<open>
  C4.  In a bisection-mode search (trial energy 0: the bracket starts at the lowest
  and highest value of the potential and \<open>e\<close> at their midpoint), at every pass of
  the shooting loop that does not exit the bracket is proper before and after the
  pass (\<open>elw < eup\<close>), its width does not increase (it is halved), and the new
  bracket lies inside the old one.
\<close>

theorem bracket_narrows:
  assumes "reaches g nodes (fst (trial g 0 w)) (snd (trial g 0 w)) s"
    and "continue (fst (trial g 0 w)) s"
    and "pass g nodes (fst (trial g 0 w)) s = Inr s1"
  shows "elw s < eup s \<and> elw s1 < eup s1 \<and>
         eup s1 - elw s1 \<le> eup s - elw s \<and> eup s1 - elw s1 = (eup s - elw s) / 2 \<and>
         elw s \<le> elw s1 \<and> eup s1 \<le> eup s"
proof -
  have it: "1 < fst (trial g 0 w)" by (simp add: trial_bisection)
  have m: "e s = (eup s + elw s) / 2"
    using reaches_midpoint [OF assms(1) it] by (simp add: trial_bisection)
  have b: "elw s < eup s" using assms(2) by (rule continue_bracket)
  note h = pass_halves [OF assms(3) it assms(2) m]
  then have "eup s1 - elw s1 \<le> eup s - elw s" using b by simp
  then show ?thesis using h b by simp
qed


theorem bracket_narrows_witness:
  "reaches (make_grid 1 11) 0 (fst (trial (make_grid 1 11) 0 (fresh (make_grid 1 11))))
     (snd (trial (make_grid 1 11) 0 (fresh (make_grid 1 11))))
     (snd (trial (make_grid 1 11) 0 (fresh (make_grid 1 11)))) \<and>
   continue (fst (trial (make_grid 1 11) 0 (fresh (make_grid 1 11))))
     (snd (trial (make_grid 1 11) 0 (fresh (make_grid 1 11)))) \<and>
   pass (make_grid 1 11) 0 (fst (trial (make_grid 1 11) 0 (fresh (make_grid 1 11))))
     (snd (trial (make_grid 1 11) 0 (fresh (make_grid 1 11))))
     = Inr (integrate (make_grid 1 11) 0 (fst (trial (make_grid 1 11) 0 (fresh (make_grid 1 11))))
              (f_scan (make_grid 1 11) (1 / 4))
              (snd (trial (make_grid 1 11) 0 (fresh (make_grid 1 11))))) \<and>
   eup (integrate (make_grid 1 11) 0 (fst (trial (make_grid 1 11) 0 (fresh (make_grid 1 11))))
              (f_scan (make_grid 1 11) (1 / 4))
              (snd (trial (make_grid 1 11) 0 (fresh (make_grid 1 11)))))
     - elw (integrate (make_grid 1 11) 0 (fst (trial (make_grid 1 11) 0 (fresh (make_grid 1 11))))
              (f_scan (make_grid 1 11) (1 / 4))
              (snd (trial (make_grid 1 11) 0 (fresh (make_grid 1 11))))) = 1 / 4"
proof -
  let ?g = "make_grid 1 11"
  let ?it = "fst (trial ?g 0 (fresh ?g))"
  let ?s = "snd (trial ?g 0 (fresh ?g))"
  have r: "reaches ?g 0 ?it ?s ?s" by (rule reaches_here)
  have c: "continue ?it ?s" by (simp add: eval_simps)
  have en: "e ?s = 1 / 4" by (simp add: eval_simps)
  have w: "eup ?s - elw ?s = 1 / 2" by (simp add: eval_simps)
  have ck: "check_icl (mesh ?g) (snd (f_scan ?g (1 / 4))) = None" by (simp add: eval_simps)
  have ps: "pass ?g 0 ?it ?s = Inr (integrate ?g 0 ?it (f_scan ?g (1 / 4)) ?s)"
    using ck by (simp add: pass_Inr en)
  have "eup (integrate ?g 0 ?it (f_scan ?g (1 / 4)) ?s)
          - elw (integrate ?g 0 ?it (f_scan ?g (1 / 4)) ?s) = (eup ?s - elw ?s) / 2"
    using bracket_narrows [OF r c ps] by (elim conjE)
  then have h: "eup (integrate ?g 0 ?it (f_scan ?g (1 / 4)) ?s)
          - elw (integrate ?g 0 ?it (f_scan ?g (1 / 4)) ?s) = 1 / 4"
    unfolding w by simp
  show ?thesis by (intro conjI r c ps h)
qed

section \<open>Fixed trial energy\<close>

text \<open>
  C6.  With a nonzero trial energy the loop runs with \<open>iterate = 1\<close>, and its
  condition \<open>kkk <= iterate\<close> lets it run for \<open>kkk = 0\<close> and \<open>kkk = 1\<close>: for
  \<open>xmax = 4\<close>, \<open>mesh = 4\<close>, \<open>nodes = 0\<close> and the trial energy \<open>1/4\<close> the loop ends with
  \<open>kkk = 2\<close>, after two passes at the same energy rather than one.  The bracket and the
  trial energy are left as they were, and \<open>y\<close> is the matched and normalized array
  for that energy.
\<close>

theorem fixed_energy_two_passes:
  "fst (trial (make_grid 4 4) (1 / 4) (fresh (make_grid 4 4))) = 1 \<and>
   shoot (make_grid 4 4) 0 1 (snd (trial (make_grid 4 4) (1 / 4) (fresh (make_grid 4 4))))
     = Inr ((snd (trial (make_grid 4 4) (1 / 4) (fresh (make_grid 4 4))))
              \<lparr>icl := 1, f := coeffs (make_grid 4 4) (1 / 4),
                y := wavefunction (make_grid 4 4) 0 (1 / 4), kkk := 2\<rparr>) \<and>
   kkk (snd (trial (make_grid 4 4) (1 / 4) (fresh (make_grid 4 4)))) = 0"
proof -
  let ?g = "make_grid 4 4"
  let ?s = "snd (trial ?g (1 / 4) (fresh ?g))"
  have i: "fst (trial ?g (1 / 4) (fresh ?g)) = 1" by (simp add: trial_def Let_def)
  have k: "kkk ?s = 0" by (simp add: trial_def Let_def)
  have en: "e ?s = 1 / 4" by (simp add: trial_def Let_def)
  have w: "eup ?s - elw ?s > 1 / 10 ^ 10" by (simp add: eval_simps)
  have ck: "check_icl (mesh ?g) (snd (f_scan ?g (e ?s))) = None"
    unfolding en by (simp add: eval_simps)
  have ic: "icl_at ?g (1 / 4) = 1" by (simp add: eval_simps)
  show ?thesis
    using shoot_fixed_twice [OF k w ck, of 0] i k unfolding en ic by simp
qed

section \<open>Matching and normalization\<close>




section \<open>The iteration budget\<close>

text \<open>
  C5.  The loop terminates, a pass runs only while the bracket is wider than
  \<open>1e-10\<close>, and a search that exhausts its budget still yields a table; but the
  budget is not 1000 passes.  The loop condition \<open>kkk <= iterate\<close> with \<open>iterate = 1000\<close>
  lets \<open>kkk\<close> run from 0 to 1000: on the very wide grid (\<open>xmax = 11 * 2\<^sup>5\<^sup>0\<^sup>0\<close>,
  \<open>mesh = 11\<close>, \<open>nodes = 0\<close>, trial energy 0) no pass exits, the loop ends with
  \<open>kkk = 1001\<close>, after 1001 passes, with a bracket of width \<open>121/4\<close>, and the search
  yields its table.
\<close>

theorem budget_of_1001_passes:
  "fst (trial wide_grid 0 (fresh wide_grid)) = 1000 \<and>
   \<not> isl (shoot wide_grid 0 1000 (snd (trial wide_grid 0 (fresh wide_grid)))) \<and>
   kkk (projr (shoot wide_grid 0 1000 (snd (trial wide_grid 0 (fresh wide_grid))))) = 1001 \<and>
   eup (projr (shoot wide_grid 0 1000 (snd (trial wide_grid 0 (fresh wide_grid)))))
     - elw (projr (shoot wide_grid 0 1000 (snd (trial wide_grid 0 (fresh wide_grid)))))
     = 121 / 4 \<and>
   \<not> isl (search_once wide_grid (fresh wide_grid) (Some 0) 0)"
proof -
  obtain t where t: "shoot wide_grid 0 1000 (snd (trial wide_grid 0 (fresh wide_grid))) = Inr t"
    "kkk t = 1001" "eup t - elw t = 121 / 4"
    using wide_run [of "fresh wide_grid"] by blast
  have i: "fst (trial wide_grid 0 (fresh wide_grid)) = 1000" by (rule wide_start(1))
  have "\<not> isl (search_once wide_grid (fresh wide_grid) (Some 0) 0)"
    by (simp add: search_once_def Let_def i t(1))
  then show ?thesis using t i by simp
qed

section \<open>The table after the loop\<close>




end
